theory Spec2Isabelle
  imports Main "HOL-Library.Word" "HOL-Library.Sublist"
begin

unbundle bit_operations_syntax

section \<open>Data model\<close>

text \<open>
  The ABI codec of package \<open>web3\<close> works on Go byte slices, Go strings and values of
  the empty interface. A byte is an 8-bit word. A Go string is a sequence of bytes, which
  is what a HOL \<open>string\<close> is; the conversions \<open>[]byte(s)\<close> and \<open>string(b)\<close> are
  \<open>bytes_of_string\<close> and \<open>string_of_bytes\<close>. Lengths and the offsets the codec computes
  from lengths are natural numbers (a Go slice never holds more than \<open>2^63 - 1\<close> elements,
  so \<open>int\<close> arithmetic on lengths does not wrap); the two places where the decoder turns
  bytes read from its input into an \<open>int64\<close> are modelled with the wrap-around written out.
\<close>

type_synonym byte = "8 word"

definition bytes_of_string :: "string \<Rightarrow> byte list" where
  "bytes_of_string s = map of_char s"

definition string_of_bytes :: "byte list \<Rightarrow> string" where
  "string_of_bytes bs = map (\<lambda>b. char_of (unat b)) bs"

text \<open>
  The dynamic type of an \<open>interface{}\<close> value, as far as the type switches of the
  encoder distinguish it. \<open>VInt\<close>, \<open>VInt64\<close> and \<open>VUint64\<close> carry 64-bit machine
  integers; \<open>VBigInt\<close> is a non-nil \<open>*big.Int\<close>, \<open>VNilBigInt\<close> the nil pointer of that
  type; \<open>VOther\<close> stands for every other dynamic type (and the nil interface).
\<close>

datatype go_value =
    VBigInt int
  | VNilBigInt
  | VString string
  | VInt "64 word"
  | VInt64 "64 word"
  | VUint64 "64 word"
  | VBool bool
  | VBytes "byte list"
  | VSliceAny "go_value list"
  | VSliceString "string list"
  | VOther

record ABIParam =
  Name :: string
  Type :: string

text \<open>
  Every \<open>fmt.Errorf\<close> of the codec is a constructor; \<open>%w\<close> wrapping keeps the wrapped
  error as an argument. A run-time panic is not an error value: it unwinds through every
  caller, so it is kept apart from the returned errors.
\<close>

datatype error =
    ParameterCountMismatch nat nat
  | FailedToDecodeSelector
  | FailedToEncodeParameters error
  | FailedToEncodeDynamicParameter nat error
  | FailedToEncodeStaticParameter nat error
  | UnsupportedType string
  | AddressMustBeString
  | InvalidAddressFormat
  | InvalidUintString
  | UnsupportedUintType
  | InvalidBoolString
  | UnsupportedBoolType
  | StringValueMustBeStringType
  | InvalidHexString
  | BytesValueMustBeBytesOrHexString
  | ArrayValueMustBeSlice
  | FailedToEncodeArrayElement error
  | EmptyData
  | InsufficientDataForType string
  | FailedToDecodeType string error
  | UnsupportedDecodeType string
  | InsufficientDataForAddress
  | InsufficientDataForUint
  | InsufficientDataForBool
  | InsufficientDataForStringOffset
  | InsufficientDataForStringLength
  | InsufficientDataForStringContent

datatype panic =
    BufferTooSmall
  | SliceBoundsOutOfRange
  | IndexOutOfRange
  | NilPointerDereference
  | IntegerDivideByZero
  | MakeSliceLenOutOfRange

datatype failure = Error error | Panic panic

type_synonym 'a result = "failure + 'a"

text \<open>Sequencing of fallible steps; \<open>wrap\<close> is what \<open>fmt.Errorf("...: %w", err)\<close> in an
  \<open>if err != nil\<close> branch does to a returned error, while a panic passes unchanged.\<close>

definition bind :: "'a result \<Rightarrow> ('a \<Rightarrow> 'b result) \<Rightarrow> 'b result" where
  "bind r f = (case r of Inl e \<Rightarrow> Inl e | Inr x \<Rightarrow> f x)"

definition wrap :: "(error \<Rightarrow> error) \<Rightarrow> 'a result \<Rightarrow> 'a result" where
  "wrap w r = (case r of Inl (Error e) \<Rightarrow> Inl (Error (w e)) | Inl (Panic p) \<Rightarrow> Inl (Panic p)
               | Inr x \<Rightarrow> Inr x)"

section \<open>Library functions the codec calls\<close>

subsection \<open>Package strings\<close>

definition HasPrefix :: "string \<Rightarrow> string \<Rightarrow> bool" where
  "HasPrefix s p = prefix p s"

definition HasSuffix :: "string \<Rightarrow> string \<Rightarrow> bool" where
  "HasSuffix s p = suffix p s"

fun Contains :: "string \<Rightarrow> string \<Rightarrow> bool" where
  "Contains [] sub = (sub = [])"
| "Contains (c # cs) sub = (prefix sub (c # cs) \<or> Contains cs sub)"

definition TrimPrefix :: "string \<Rightarrow> string \<Rightarrow> string" where
  "TrimPrefix s p = (if HasPrefix s p then drop (length p) s else s)"

definition TrimSuffix :: "string \<Rightarrow> string \<Rightarrow> string" where
  "TrimSuffix s p = (if HasSuffix s p then take (length s - length p) s else s)"

fun Join :: "string list \<Rightarrow> string \<Rightarrow> string" where
  "Join [] sep = []"
| "Join [x] sep = x"
| "Join (x # y # ys) sep = x @ sep @ Join (y # ys) sep"

subsection \<open>Package encoding/hex\<close>

definition hextable :: string where
  "hextable = ''0123456789abcdef''"

fun EncodeToString :: "byte list \<Rightarrow> string" where
  "EncodeToString [] = []"
| "EncodeToString (b # bs) =
     hextable ! (unat b div 16) # hextable ! (unat b mod 16) # EncodeToString bs"

definition fromHexChar :: "char \<Rightarrow> nat option" where
  "fromHexChar c =
     (let n = (of_char c :: nat) in
      if 48 \<le> n \<and> n \<le> 57 then Some (n - 48)
      else if 97 \<le> n \<and> n \<le> 102 then Some (n - 97 + 10)
      else if 65 \<le> n \<and> n \<le> 70 then Some (n - 65 + 10)
      else None)"

text \<open>\<open>hex.DecodeString\<close> returns the bytes decoded before the first bad character and an
  error; the second component is \<open>err == nil\<close>.\<close>

fun DecodeString :: "string \<Rightarrow> byte list \<times> bool" where
  "DecodeString [] = ([], True)"
| "DecodeString [p] = ([], False)"
| "DecodeString (p # q # cs) =
     (case (fromHexChar p, fromHexChar q) of
        (Some a, Some b) \<Rightarrow>
          (let (bs, ok) = DecodeString cs in (of_nat (16 * a + b) # bs, ok))
      | _ \<Rightarrow> ([], False))"

subsection \<open>Package math/big and strconv\<close>

text \<open>Big-endian bytes: \<open>be_bytes k n\<close> are the \<open>k\<close> low-order base-256 digits of \<open>n\<close>,
  most significant first; \<open>be_nat\<close> is the value \<open>SetBytes\<close> reads.\<close>

fun be_bytes :: "nat \<Rightarrow> nat \<Rightarrow> byte list" where
  "be_bytes 0 n = []"
| "be_bytes (Suc k) n = be_bytes k (n div 256) @ [of_nat (n mod 256)]"

definition be_nat :: "byte list \<Rightarrow> nat" where
  "be_nat bs = foldl (\<lambda>acc b. acc * 256 + unat b) 0 bs"

text \<open>\<open>x.FillBytes(buf)\<close> with \<open>len(buf) = k\<close>: the absolute value of \<open>x\<close>, zero-extended,
  big-endian; it panics when the absolute value does not fit.\<close>

definition FillBytes :: "nat \<Rightarrow> int \<Rightarrow> byte list result" where
  "FillBytes k x =
     (if nat \<bar>x\<bar> < 256 ^ k then Inr (be_bytes k (nat \<bar>x\<bar>)) else Inl (Panic BufferTooSmall))"

text \<open>\<open>new(big.Int).SetBytes(b)\<close> is the unsigned big-endian value of \<open>b\<close>.\<close>

definition SetBytes :: "byte list \<Rightarrow> int" where
  "SetBytes bs = int (be_nat bs)"

text \<open>\<open>x.Int64()\<close> keeps the low 64 bits of the magnitude and reads them as two's
  complement (the value is not negative here: it comes from \<open>SetBytes\<close>).\<close>

definition Int64 :: "int \<Rightarrow> int" where
  "Int64 x = signed_take_bit 63 x"

text \<open>Addition of two Go \<open>int\<close> (64-bit) values.\<close>

definition int_add :: "int \<Rightarrow> int \<Rightarrow> int" where
  "int_add a b = signed_take_bit 63 (a + b)"

fun digits_value :: "string \<Rightarrow> nat \<Rightarrow> nat option" where
  "digits_value [] acc = Some acc"
| "digits_value (c # cs) acc =
     (let n = (of_char c :: nat) in
      if 48 \<le> n \<and> n \<le> 57 then digits_value cs (acc * 10 + (n - 48)) else None)"

text \<open>\<open>new(big.Int).SetString(s, 10)\<close>: an optional sign and at least one decimal digit,
  the whole string.\<close>

definition SetString10 :: "string \<Rightarrow> int option" where
  "SetString10 s =
     (case s of
        [] \<Rightarrow> None
      | c # cs \<Rightarrow>
          if c = CHR ''-'' then (if cs = [] then None else map_option (\<lambda>n. - int n) (digits_value cs 0))
          else if c = CHR ''+'' then (if cs = [] then None else map_option int (digits_value cs 0))
          else map_option int (digits_value s 0))"

definition ParseBool :: "string \<Rightarrow> bool option" where
  "ParseBool s =
     (if s \<in> set [''1'', ''t'', ''T'', ''TRUE'', ''true'', ''True''] then Some True
      else if s \<in> set [''0'', ''f'', ''F'', ''FALSE'', ''false'', ''False''] then Some False
      else None)"

subsection \<open>Slicing\<close>

text \<open>\<open>data[lo:hi]\<close> on a slice whose capacity is its length: a panic unless
  \<open>0 \<le> lo \<le> hi \<le> len(data)\<close>.\<close>

definition slice :: "'a list \<Rightarrow> int \<Rightarrow> int \<Rightarrow> 'a list result" where
  "slice xs lo hi =
     (if 0 \<le> lo \<and> lo \<le> hi \<and> hi \<le> int (length xs)
      then Inr (take (nat hi - nat lo) (drop (nat lo) xs))
      else Inl (Panic SliceBoundsOutOfRange))"

section \<open>The encoder\<close>

text \<open>\<open>ValidateAddress\<close> (transaction.go).\<close>

definition ValidateAddress :: "string \<Rightarrow> bool" where
  "ValidateAddress address =
     (if \<not> HasPrefix address ''0x'' then False
      else if length address \<noteq> 42 then False
      else snd (DecodeString (drop 2 address)))"

text \<open>\<open>Keccak256\<close> (the event file): 32 zero bytes, each input byte xor-ed into position
  \<open>i % 32\<close>, rendered in hex.\<close>

definition Keccak256 :: "byte list \<Rightarrow> string" where
  "Keccak256 data =
     EncodeToString
       (foldl (\<lambda>hash (i, b). hash[i mod 32 := (hash ! (i mod 32)) XOR b])
          (replicate 32 0) (enumerate 0 data))"

definition createFunctionSignature :: "string \<Rightarrow> ABIParam list \<Rightarrow> string" where
  "createFunctionSignature funcName params =
     funcName @ ''('' @ Join (map Type params) '','' @ '')''"

definition isDynamicType :: "string \<Rightarrow> bool" where
  "isDynamicType abiType =
     (Contains abiType ''[]'' \<or> abiType = ''string'' \<or> abiType = ''bytes'')"

definition encodeAddress :: "go_value \<Rightarrow> byte list result" where
  "encodeAddress v =
     (case v of
        VString addressStr \<Rightarrow>
          if \<not> ValidateAddress addressStr then Inl (Error InvalidAddressFormat)
          else
            (let addressBytes = fst (DecodeString (TrimPrefix addressStr ''0x''));
                 n = min 20 (length addressBytes)
             in Inr (replicate 12 0 @ take n addressBytes @ replicate (20 - n) 0))
      | _ \<Rightarrow> Inl (Error AddressMustBeString))"

definition encodeUint :: "string \<Rightarrow> go_value \<Rightarrow> byte list result" where
  "encodeUint abiType v =
     (case v of
        VBigInt x \<Rightarrow> FillBytes 32 x
      | VNilBigInt \<Rightarrow> Inl (Panic NilPointerDereference)
      | VString s \<Rightarrow>
          (case SetString10 s of
             None \<Rightarrow> Inl (Error InvalidUintString)
           | Some x \<Rightarrow> FillBytes 32 x)
      | VInt w \<Rightarrow> FillBytes 32 (sint w)
      | VInt64 w \<Rightarrow> FillBytes 32 (sint w)
      | VUint64 w \<Rightarrow> FillBytes 32 (uint w)
      | _ \<Rightarrow> Inl (Error UnsupportedUintType))"

definition encodeInt :: "string \<Rightarrow> go_value \<Rightarrow> byte list result" where
  "encodeInt abiType v = encodeUint abiType v"

definition encodeBool :: "go_value \<Rightarrow> byte list result" where
  "encodeBool v =
     (case v of
        VBool b \<Rightarrow> Inr ((replicate 32 0)[31 := (if b then 1 else 0)])
      | VString s \<Rightarrow>
          (case ParseBool s of
             None \<Rightarrow> Inl (Error InvalidBoolString)
           | Some b \<Rightarrow> Inr ((replicate 32 0)[31 := (if b then 1 else 0)]))
      | _ \<Rightarrow> Inl (Error UnsupportedBoolType))"

text \<open>\<open>padBytes\<close>: Go's \<open>%\<close> panics on a zero divisor and truncates otherwise (the
  dividend, a length, is not negative); \<open>make\<close> panics on a negative length; \<open>copy\<close>
  copies as many bytes as fit.\<close>

definition padBytes :: "byte list \<Rightarrow> int \<Rightarrow> byte list result" where
  "padBytes data blockSize =
     (if blockSize = 0 then Inl (Panic IntegerDivideByZero)
      else
        (let remainder = int (length data) mod \<bar>blockSize\<bar> in
         if remainder = 0 then Inr data
         else
           (let padding = blockSize - remainder;
                n = int (length data) + padding
            in if n < 0 then Inl (Panic MakeSliceLenOutOfRange)
               else Inr (take (nat n) data @ replicate (nat n - length data) 0))))"

definition encodeString :: "go_value \<Rightarrow> byte list result" where
  "encodeString v =
     (case v of
        VString str \<Rightarrow>
          (let strBytes = bytes_of_string str in
           bind (FillBytes 32 (int (length strBytes))) (\<lambda>len.
           bind (padBytes strBytes 32) (\<lambda>paddedBytes.
           Inr (len @ paddedBytes))))
      | _ \<Rightarrow> Inl (Error StringValueMustBeStringType))"

definition encodeBytes :: "go_value \<Rightarrow> byte list result" where
  "encodeBytes v =
     (let finish = (\<lambda>bytes.
            bind (FillBytes 32 (int (length bytes))) (\<lambda>len.
            bind (padBytes bytes 32) (\<lambda>paddedBytes.
            Inr (len @ paddedBytes))))
      in case v of
           VBytes bytes \<Rightarrow> finish bytes
         | VString s \<Rightarrow>
             (case DecodeString (TrimPrefix s ''0x'') of
                (bytes, True) \<Rightarrow> finish bytes
              | (bytes, False) \<Rightarrow> Inl (Error InvalidHexString))
         | _ \<Rightarrow> Inl (Error BytesValueMustBeBytesOrHexString))"

text \<open>The elements of an array value: \<open>[]interface{}\<close> as it is, \<open>[]string\<close> element by
  element; anything else is not a slice the encoder takes.\<close>

definition arrayElements :: "go_value \<Rightarrow> go_value list option" where
  "arrayElements v =
     (case v of
        VSliceAny es \<Rightarrow> Some es
      | VSliceString ss \<Rightarrow> Some (map VString ss)
      | _ \<Rightarrow> None)"

primrec vsize :: "go_value \<Rightarrow> nat" where
  "vsize (VBigInt x) = 0"
| "vsize VNilBigInt = 0"
| "vsize (VString s) = 0"
| "vsize (VInt w) = 0"
| "vsize (VInt64 w) = 0"
| "vsize (VUint64 w) = 0"
| "vsize (VBool b) = 0"
| "vsize (VBytes bs) = 0"
| "vsize (VSliceAny es) = Suc (sum_list (map (\<lambda>e. Suc (vsize e)) es))"
| "vsize (VSliceString ss) = Suc (length ss)"
| "vsize VOther = 0"

lemma sum_list_const_Suc: "sum_list (map (\<lambda>x. Suc 0) xs) = length xs"
  by (induction xs) simp_all

lemma vsize_arrayElements:
  "arrayElements v = Some es \<Longrightarrow> vsize v = Suc (sum_list (map (\<lambda>e. Suc (vsize e)) es))"
  by (cases v) (auto simp: arrayElements_def comp_def sum_list_const_Suc)

text \<open>\<open>encodeValue\<close>, \<open>encodeArray\<close> and the loop of \<open>encodeArray\<close> over the elements
  (\<open>encodedElements\<close> is the accumulator).\<close>

function encodeValue :: "string \<Rightarrow> go_value \<Rightarrow> byte list result"
  and encodeArray :: "string \<Rightarrow> go_value \<Rightarrow> byte list result"
  and encodeArrayLoop :: "string \<Rightarrow> go_value list \<Rightarrow> byte list \<Rightarrow> byte list result"
where
  "encodeValue abiType v =
     (if abiType = ''address'' then encodeAddress v
      else if HasPrefix abiType ''uint'' then encodeUint abiType v
      else if HasPrefix abiType ''int'' then encodeInt abiType v
      else if abiType = ''bool'' then encodeBool v
      else if abiType = ''string'' then encodeString v
      else if abiType = ''bytes'' then encodeBytes v
      else if HasSuffix abiType ''[]'' then encodeArray abiType v
      else Inl (Error (UnsupportedType abiType)))"
| "encodeArray abiType v =
     (case arrayElements v of
        None \<Rightarrow> Inl (Error ArrayValueMustBeSlice)
      | Some elements \<Rightarrow>
          bind (FillBytes 32 (int (length elements))) (\<lambda>len.
          bind (encodeArrayLoop (TrimSuffix abiType ''[]'') elements []) (\<lambda>encodedElements.
          Inr (len @ encodedElements))))"
| "encodeArrayLoop elementType [] encodedElements = Inr encodedElements"
| "encodeArrayLoop elementType (element # elements) encodedElements =
     (case encodeValue elementType element of
        Inl (Error e) \<Rightarrow> Inl (Error (FailedToEncodeArrayElement e))
      | Inl (Panic p) \<Rightarrow> Inl (Panic p)
      | Inr encoded \<Rightarrow> encodeArrayLoop elementType elements (encodedElements @ encoded))"
  by pat_completeness auto
termination
  by (relation "measure (\<lambda>x. case x of
          Inl (t, v) \<Rightarrow> 3 * vsize v + 2
        | Inr (Inl (t, v)) \<Rightarrow> 3 * vsize v + 1
        | Inr (Inr (t, es, acc)) \<Rightarrow> 3 * sum_list (map (\<lambda>e. Suc (vsize e)) es))")
     (auto dest: vsize_arrayElements)

declare encodeValue.simps [simp del] encodeArray.simps [simp del]

text \<open>The loop of \<open>encodeParameters\<close>: \<open>i\<close> is the index, \<open>encoded\<close> the head built so
  far, \<open>dynamicData\<close> the tail, \<open>dynamicOffset\<close> the running offset. It returns the head
  and the tail, which \<open>encodeParameters\<close> appends.\<close>

fun encodeParametersLoop ::
  "ABIParam list \<Rightarrow> go_value list \<Rightarrow> nat \<Rightarrow> byte list \<Rightarrow> byte list \<Rightarrow> nat
   \<Rightarrow> (byte list \<times> byte list) result" where
  "encodeParametersLoop [] values i encoded dynamicData dynamicOffset =
     Inr (encoded, dynamicData)"
| "encodeParametersLoop (param # params) [] i encoded dynamicData dynamicOffset =
     Inl (Panic IndexOutOfRange)"
| "encodeParametersLoop (param # params) (v # values) i encoded dynamicData dynamicOffset =
     (if isDynamicType (Type param) then
        bind (FillBytes 32 (int dynamicOffset)) (\<lambda>offsetBytes.
        bind (wrap (FailedToEncodeDynamicParameter i) (encodeValue (Type param) v))
          (\<lambda>dynamicEncoded.
        encodeParametersLoop params values (Suc i) (encoded @ offsetBytes)
          (dynamicData @ dynamicEncoded) (dynamicOffset + length dynamicEncoded)))
      else
        bind (wrap (FailedToEncodeStaticParameter i) (encodeValue (Type param) v))
          (\<lambda>staticEncoded.
        encodeParametersLoop params values (Suc i) (encoded @ staticEncoded)
          dynamicData dynamicOffset))"

definition encodeParameters :: "ABIParam list \<Rightarrow> go_value list \<Rightarrow> byte list result" where
  "encodeParameters params values =
     (if length params \<noteq> length values
      then Inl (Error (ParameterCountMismatch (length params) (length values)))
      else bind (encodeParametersLoop params values 0 [] [] (length params * 32))
             (\<lambda>(encoded, dynamicData). Inr (encoded @ dynamicData)))"

definition EncodeFunctionCall ::
  "string \<Rightarrow> ABIParam list \<Rightarrow> go_value list \<Rightarrow> byte list result" where
  "EncodeFunctionCall funcName params values =
     (let signature = createFunctionSignature funcName params;
          selector = take 8 (Keccak256 (bytes_of_string signature))
      in case DecodeString selector of
           (selectorBytes, False) \<Rightarrow> Inl (Error FailedToDecodeSelector)
         | (selectorBytes, True) \<Rightarrow>
             bind (wrap FailedToEncodeParameters (encodeParameters params values))
               (\<lambda>encodedParams. Inr (selectorBytes @ encodedParams)))"

section \<open>The decoder\<close>

text \<open>The decoding functions take the cursor \<open>offset\<close> from \<open>DecodeFunctionResult\<close>, which
  starts it at 0 and only ever sets it to a returned \<open>offset + 32\<close>: it is a natural
  number. What \<open>decodeString\<close> computes from the bytes of its input is an \<open>int64\<close>.\<close>

definition decodeAddress :: "byte list \<Rightarrow> nat \<Rightarrow> (string \<times> nat) result" where
  "decodeAddress data offset =
     (if offset + 32 > length data then Inl (Error InsufficientDataForAddress)
      else
        bind (slice data (int offset + 12) (int offset + 32)) (\<lambda>addressBytes.
        Inr (''0x'' @ EncodeToString addressBytes, offset + 32)))"

definition decodeUint :: "byte list \<Rightarrow> nat \<Rightarrow> (int \<times> nat) result" where
  "decodeUint data offset =
     (if offset + 32 > length data then Inl (Error InsufficientDataForUint)
      else
        bind (slice data (int offset) (int offset + 32)) (\<lambda>w.
        Inr (SetBytes w, offset + 32)))"

definition decodeBool :: "byte list \<Rightarrow> nat \<Rightarrow> (bool \<times> nat) result" where
  "decodeBool data offset =
     (if offset + 32 > length data then Inl (Error InsufficientDataForBool)
      else Inr (data ! (offset + 31) \<noteq> 0, offset + 32))"

definition decodeString :: "byte list \<Rightarrow> nat \<Rightarrow> (string \<times> nat) result" where
  "decodeString data offset =
     (if offset + 32 > length data then Inl (Error InsufficientDataForStringOffset)
      else
        bind (slice data (int offset) (int offset + 32)) (\<lambda>w.
        let stringOffset = Int64 (SetBytes w) in
        if int_add stringOffset 32 > int (length data)
        then Inl (Error InsufficientDataForStringLength)
        else
          bind (slice data stringOffset (int_add stringOffset 32)) (\<lambda>lw.
          let len = Int64 (SetBytes lw) in
          if int_add (int_add stringOffset 32) len > int (length data)
          then Inl (Error InsufficientDataForStringContent)
          else
            bind (slice data (int_add stringOffset 32) (int_add (int_add stringOffset 32) len))
              (\<lambda>stringBytes.
            Inr (string_of_bytes stringBytes, offset + 32)))))"

definition decodeValue :: "string \<Rightarrow> byte list \<Rightarrow> nat \<Rightarrow> (go_value \<times> nat) result" where
  "decodeValue abiType data offset =
     (if abiType = ''address''
      then bind (decodeAddress data offset) (\<lambda>(a, n). Inr (VString a, n))
      else if HasPrefix abiType ''uint''
      then bind (decodeUint data offset) (\<lambda>(x, n). Inr (VBigInt x, n))
      else if abiType = ''bool''
      then bind (decodeBool data offset) (\<lambda>(b, n). Inr (VBool b, n))
      else if abiType = ''string''
      then bind (decodeString data offset) (\<lambda>(s, n). Inr (VString s, n))
      else Inl (Error (UnsupportedDecodeType abiType)))"

text \<open>The loop of \<open>DecodeFunctionResult\<close> over \<open>abiTypes\<close>.\<close>

fun decodeLoop ::
  "string list \<Rightarrow> byte list \<Rightarrow> nat \<Rightarrow> go_value list \<Rightarrow> go_value list result" where
  "decodeLoop [] data offset results = Inr results"
| "decodeLoop (abiType # abiTypes) data offset results =
     (if offset + 32 > length data then Inl (Error (InsufficientDataForType abiType))
      else
        bind (wrap (FailedToDecodeType abiType) (decodeValue abiType data offset))
          (\<lambda>(v, newOffset).
        decodeLoop abiTypes data newOffset (results @ [v])))"

definition DecodeFunctionResult :: "string list \<Rightarrow> byte list \<Rightarrow> go_value list result" where
  "DecodeFunctionResult abiTypes data =
     (if length data = 0 then Inl (Error EmptyData) else decodeLoop abiTypes data 0 [])"

section \<open>Observations used to state the properties\<close>

text \<open>The offsets found in the head: the head is read one 32-byte word per parameter, and
  the word of a dynamic parameter is read as an unsigned big-endian number.\<close>

fun headOffsets :: "ABIParam list \<Rightarrow> byte list \<Rightarrow> nat list" where
  "headOffsets [] head = []"
| "headOffsets (p # ps) head =
     (if isDynamicType (Type p) then [be_nat (take 32 head)] else [])
     @ headOffsets ps (drop 32 head)"

text \<open>The values that both directions support: an address string the validator accepts
  under \<open>address\<close>, a big integer in \<open>[0, 2^256)\<close> under a static tag that starts with
  \<open>uint\<close>, a boolean under \<open>bool\<close>, a string under \<open>string\<close>.\<close>

definition supportedValue :: "string \<Rightarrow> go_value \<Rightarrow> bool" where
  "supportedValue abiType v =
     (case v of
        VString s \<Rightarrow> (abiType = ''address'' \<and> ValidateAddress s) \<or> abiType = ''string''
      | VBigInt n \<Rightarrow>
          HasPrefix abiType ''uint'' \<and> \<not> isDynamicType abiType \<and> 0 \<le> n \<and> n < 2 ^ 256
      | VBool b \<Rightarrow> abiType = ''bool''
      | _ \<Rightarrow> False)"

text \<open>The form in which a supported value comes back from the decoder: an address as
  \<open>0x\<close> and the lower-case hex digits of its 20 bytes, every other value as it is.\<close>

definition decodedForm :: "string \<Rightarrow> go_value \<Rightarrow> go_value" where
  "decodedForm abiType v =
     (case v of
        VString s \<Rightarrow>
          if abiType = ''address''
          then VString (''0x'' @ EncodeToString (fst (DecodeString (drop 2 s))))
          else v
      | _ \<Rightarrow> v)"

text \<open>A call with two dynamic parameters around a static one, used as a concrete instance.\<close>

definition wparams :: "ABIParam list" where
  "wparams = [\<lparr>Name = ''memo'', Type = ''string''\<rparr>, \<lparr>Name = ''amount'', Type = ''uint256''\<rparr>,
              \<lparr>Name = ''tag'', Type = ''string''\<rparr>]"

definition wvalues :: "go_value list" where
  "wvalues = [VString ''hello'', VBigInt 7, VString ''xy'']"

text \<open>A call with every supported kind of parameter, the address written with
  upper-case hex digits, used as a concrete instance.\<close>

definition rparams :: "ABIParam list" where
  "rparams = [\<lparr>Name = ''memo'', Type = ''string''\<rparr>, \<lparr>Name = ''to'', Type = ''address''\<rparr>,
              \<lparr>Name = ''amount'', Type = ''uint256''\<rparr>, \<lparr>Name = ''ok'', Type = ''bool''\<rparr>,
              \<lparr>Name = ''tag'', Type = ''string''\<rparr>]"

definition rvalues :: "go_value list" where
  "rvalues = [VString ''hello'', VString ''0x00000000000000000000000000000000000000AB'',
              VBigInt 7, VBool True, VString ''xy'']"

text \<open>The size of the call data of supported values: one head word per parameter and,
  for each string, its length word and its content padded to a multiple of 32 bytes.\<close>

definition payloadSize :: "string \<Rightarrow> go_value \<Rightarrow> nat" where
  "payloadSize abiType v =
     (if isDynamicType abiType
      then (case v of
              VString s \<Rightarrow>
                32 + length s + (if length s mod 32 = 0 then 0 else 32 - length s mod 32)
            | _ \<Rightarrow> 0)
      else 0)"

definition callSize :: "ABIParam list \<Rightarrow> go_value list \<Rightarrow> nat" where
  "callSize params values =
     32 * length params + sum_list (map2 (\<lambda>p v. payloadSize (Type p) v) params values)"

section \<open>Basic facts\<close>

lemma bind_Inr_iff: "bind r f = Inr y \<longleftrightarrow> (\<exists>x. r = Inr x \<and> f x = Inr y)"
  by (cases r) (simp_all add: bind_def)

lemma bind_Inr [simp]: "bind (Inr x) f = f x"
  by (simp add: bind_def)

lemma bind_Inl [simp]: "bind (Inl e) f = Inl e"
  by (simp add: bind_def)

lemma wrap_Inr_iff: "wrap w r = Inr x \<longleftrightarrow> r = Inr x"
  by (simp add: wrap_def split: sum.splits failure.splits)

lemma wrap_simps [simp]:
  "wrap w (Inr x) = Inr x"
  "wrap w (Inl (Error e)) = Inl (Error (w e))"
  "wrap w (Inl (Panic p)) = Inl (Panic p)"
  by (simp_all add: wrap_def)

lemma length_be_bytes [simp]: "length (be_bytes k n) = k"
  by (induction k arbitrary: n) simp_all

lemma be_bytes_zero: "be_bytes k 0 = replicate k 0"
  by (induction k) (simp_all add: replicate_append_same)

lemma be_bytes_numeral:
  "be_bytes (numeral k) n = be_bytes (pred_numeral k) (n div 256) @ [of_nat (n mod 256)]"
proof -
  have "be_bytes (numeral k) n = be_bytes (Suc (pred_numeral k)) n"
    by (simp only: numeral_eq_Suc)
  then show ?thesis by (simp only: be_bytes.simps)
qed

lemma be_nat_append: "be_nat (xs @ [b]) = be_nat xs * 256 + unat b"
  by (simp add: be_nat_def)

lemma be_nat_Nil [simp]: "be_nat [] = 0"
  by (simp add: be_nat_def)

lemma unat_of_nat_byte: "n < 256 \<Longrightarrow> unat (of_nat n :: byte) = n"
  by (simp add: unat_of_nat)

lemma be_nat_be_bytes: "n < 256 ^ k \<Longrightarrow> be_nat (be_bytes k n) = n"
proof (induction k arbitrary: n)
  case 0
  then show ?case by simp
next
  case (Suc k)
  have "n div 256 < 256 ^ k"
    using Suc.prems by (simp add: less_mult_imp_div_less mult.commute)
  then have "be_nat (be_bytes k (n div 256)) = n div 256"
    by (rule Suc.IH)
  then show ?case
    by (simp add: be_nat_append unat_of_nat_byte)
qed

lemma FillBytes_Inr_iff:
  "FillBytes k x = Inr bs \<longleftrightarrow> nat \<bar>x\<bar> < 256 ^ k \<and> bs = be_bytes k (nat \<bar>x\<bar>)"
  by (auto simp: FillBytes_def)

lemma FillBytes_length: "FillBytes k x = Inr bs \<Longrightarrow> length bs = k"
  by (auto simp: FillBytes_Inr_iff)

lemma padBytes_32:
  "padBytes data 32 =
     Inr (if length data mod 32 = 0 then data
          else data @ replicate (32 - length data mod 32) 0)"
proof -
  have m: "int (length data) mod 32 = int (length data mod 32)"
    by (simp add: zmod_int)
  have lt: "length data mod 32 < 32" by simp
  show ?thesis
  proof (cases "length data mod 32 = 0")
    case True
    then show ?thesis by (simp add: padBytes_def m)
  next
    case False
    have n: "int (length data) + (32 - int (length data mod 32))
             = int (length data + (32 - length data mod 32))"
      using lt by linarith
    show ?thesis
      using False lt by (simp add: padBytes_def m Let_def n del: of_nat_add of_nat_diff)
  qed
qed

section \<open>Encoding of the empty string\<close>

text \<open>
  Claim C9. Encoding the empty string as a \<open>string\<close> value gives exactly one 32-byte
  zero length word and nothing after it, because \<open>padBytes\<close> returns an input whose
  length is a multiple of 32, the empty input included, as it is.
\<close>

theorem empty_string_encoding:
  "encodeValue ''string'' (VString '''') = Inr (replicate 32 0)
   \<and> padBytes [] 32 = Inr []
   \<and> (\<forall>data. length data mod 32 = 0 \<longrightarrow> padBytes data 32 = Inr data)"
  by (simp add: encodeValue.simps HasPrefix_def encodeString_def bytes_of_string_def
      FillBytes_def be_bytes_zero padBytes_32)

theorem empty_string_encoding_witness:
  "length (replicate 64 (7 :: byte)) mod 32 = 0
   \<and> padBytes (replicate 64 7) 32 = Inr (replicate 64 7)
   \<and> encodeValue ''string'' (VString '''') = Inr (replicate 32 0)"
  using empty_string_encoding by simp

section \<open>Hex strings and the selector\<close>

lemma fromHexChar_hextable: "n < 16 \<Longrightarrow> fromHexChar (hextable ! n) = Some n"
  by (auto simp: hextable_def fromHexChar_def nth_Cons' split: if_splits)

lemma byte_nibbles: "(of_nat (16 * (unat b div 16) + unat b mod 16) :: byte) = b"
  by simp

lemma unat_byte_div16: "unat (b :: byte) div 16 < 16"
proof -
  have "unat b < 256" using unsigned_less [of b] by simp
  then show ?thesis by simp
qed

lemma DecodeString_EncodeToString: "DecodeString (EncodeToString bs) = (bs, True)"
  by (induction bs) (simp_all add: fromHexChar_hextable unat_byte_div16)

lemma take_EncodeToString: "take (2 * k) (EncodeToString bs) = EncodeToString (take k bs)"
proof (induction bs arbitrary: k)
  case Nil
  then show ?case by simp
next
  case (Cons b bs)
  show ?case
  proof (cases k)
    case 0
    then show ?thesis by simp
  next
    case (Suc j)
    then show ?thesis using Cons.IH [of j] by simp
  qed
qed

lemma length_EncodeToString [simp]: "length (EncodeToString bs) = 2 * length bs"
  by (induction bs) simp_all

lemma length_hash_fold:
  "length (foldl (\<lambda>hash (i, b). hash[i mod 32 := (hash ! (i mod 32)) XOR b]) h xs) = length h"
  by (induction xs arbitrary: h) (simp_all add: case_prod_beta)

lemma selector_decodes:
  "\<exists>sel. DecodeString (take 8 (Keccak256 d)) = (sel, True) \<and> length sel = 4"
proof -
  define h where
    "h = foldl (\<lambda>hash (i, b). hash[i mod 32 := (hash ! (i mod 32)) XOR b]) (replicate 32 0)
           (enumerate 0 d)"
  have len: "length h = 32"
    by (simp add: h_def length_hash_fold)
  have "take 8 (Keccak256 d) = EncodeToString (take 4 h)"
    using take_EncodeToString [of 4 h] by (simp add: Keccak256_def h_def)
  then have "DecodeString (take 8 (Keccak256 d)) = (take 4 h, True)"
    by (simp add: DecodeString_EncodeToString)
  then show ?thesis using len by simp
qed

lemma EncodeFunctionCall_eq:
  "\<exists>sel. length sel = 4 \<and>
     EncodeFunctionCall funcName params values =
       bind (wrap FailedToEncodeParameters (encodeParameters params values))
         (\<lambda>encodedParams. Inr (sel @ encodedParams))"
proof -
  obtain sel where
    "DecodeString (take 8 (Keccak256 (bytes_of_string (createFunctionSignature funcName params))))
       = (sel, True)" "length sel = 4"
    using selector_decodes by blast
  then show ?thesis
    by (auto simp: EncodeFunctionCall_def Let_def)
qed

section \<open>Arity mismatch\<close>

text \<open>
  Claim C8. When the parameter list and the value list differ in length, the encoder
  returns the parameter-count-mismatch error (\<open>EncodeFunctionCall\<close> returns it wrapped)
  and no bytes; so it does for two parameters and one value.
\<close>

theorem arity_mismatch:
  "length params \<noteq> length values \<Longrightarrow>
     encodeParameters params values =
       Inl (Error (ParameterCountMismatch (length params) (length values)))
     \<and> EncodeFunctionCall funcName params values =
       Inl (Error (FailedToEncodeParameters
              (ParameterCountMismatch (length params) (length values))))"
  using EncodeFunctionCall_eq [of funcName params "values"]
  by (auto simp: encodeParameters_def)

theorem arity_mismatch_witness:
  "length [\<lparr>Name = ''to'', Type = ''address''\<rparr>, \<lparr>Name = ''amount'', Type = ''uint256''\<rparr>]
     \<noteq> length [VBigInt 1000000]
   \<and> EncodeFunctionCall ''transfer''
       [\<lparr>Name = ''to'', Type = ''address''\<rparr>, \<lparr>Name = ''amount'', Type = ''uint256''\<rparr>]
       [VBigInt 1000000]
     = Inl (Error (FailedToEncodeParameters (ParameterCountMismatch 2 1)))"
  using arity_mismatch [of "[\<lparr>Name = ''to'', Type = ''address''\<rparr>, \<lparr>Name = ''amount'', Type = ''uint256''\<rparr>]"
      "[VBigInt 1000000]" "''transfer''"]
  by simp

section \<open>Layout of head and tail\<close>

lemma suffix_Contains: "suffix sub s \<Longrightarrow> Contains s sub"
  by (induction s) (auto simp: suffix_Cons)

lemma isDynamicType_simps [simp]:
  "\<not> isDynamicType ''address''" "\<not> isDynamicType ''bool''" "isDynamicType ''string''"
  "isDynamicType ''bytes''"
  by (simp_all add: isDynamicType_def)

lemma encodeAddress_length: "encodeAddress v = Inr bs \<Longrightarrow> length bs = 32"
  by (auto simp: encodeAddress_def Let_def split: go_value.splits if_splits)

lemma encodeUint_length: "encodeUint t v = Inr bs \<Longrightarrow> length bs = 32"
  by (auto simp: encodeUint_def dest: FillBytes_length split: go_value.splits option.splits)

lemma encodeBool_length: "encodeBool v = Inr bs \<Longrightarrow> length bs = 32"
  by (auto simp: encodeBool_def split: go_value.splits option.splits)

lemma encodeString_length: "encodeString v = Inr bs \<Longrightarrow> 32 \<le> length bs"
  by (auto simp: encodeString_def Let_def bind_Inr_iff dest: FillBytes_length
      split: go_value.splits)

lemma encodeBytes_length: "encodeBytes v = Inr bs \<Longrightarrow> 32 \<le> length bs"
  by (auto simp: encodeBytes_def Let_def bind_Inr_iff dest: FillBytes_length
      split: go_value.splits prod.splits bool.splits)

lemma encodeArray_length: "encodeArray t v = Inr bs \<Longrightarrow> 32 \<le> length bs"
  by (auto simp: encodeArray.simps bind_Inr_iff dest: FillBytes_length split: option.splits)

lemma encodeValue_static_length:
  "encodeValue t v = Inr bs \<Longrightarrow> \<not> isDynamicType t \<Longrightarrow> length bs = 32"
  by (auto simp: encodeValue.simps encodeInt_def isDynamicType_def HasSuffix_def
      dest: encodeAddress_length encodeUint_length encodeBool_length suffix_Contains
      split: if_splits)

lemma encodeValue_length: "encodeValue t v = Inr bs \<Longrightarrow> 32 \<le> length bs"
  by (auto simp: encodeValue.simps encodeInt_def
      dest: encodeAddress_length encodeUint_length encodeBool_length encodeString_length
        encodeBytes_length encodeArray_length
      split: if_splits)

lemma headOffsets_append:
  "length H = 32 * length ps \<Longrightarrow> headOffsets ps (H @ X) = headOffsets ps H"
proof (induction ps arbitrary: H)
  case Nil
  then show ?case by simp
next
  case (Cons p ps)
  then have "length (drop 32 H) = 32 * length ps" by simp
  then have "headOffsets ps (drop 32 H @ X) = headOffsets ps (drop 32 H)"
    by (rule Cons.IH)
  moreover have "32 \<le> length H" using Cons.prems by simp
  ultimately show ?case by simp
qed

lemma length_headOffsets:
  "length (headOffsets ps H) = length (filter (\<lambda>p. isDynamicType (Type p)) ps)"
  by (induction ps arbitrary: H) simp_all

lemma loop_layout:
  "encodeParametersLoop ps vs i enc dyn off = Inr (head, tail) \<Longrightarrow>
   \<exists>H T. head = enc @ H \<and> tail = dyn @ T \<and> length H = 32 * length ps
     \<and> sorted_wrt (<) (headOffsets ps H)
     \<and> (\<forall>x \<in> set (headOffsets ps H). off \<le> x \<and> x + 32 \<le> off + length T)"
proof (induction ps vs i enc dyn off rule: encodeParametersLoop.induct)
  case (1 "values" i encoded dynamicData dynamicOffset)
  then show ?case by simp
next
  case (2 param params i encoded dynamicData dynamicOffset)
  then show ?case by simp
next
  case (3 param params v "values" i encoded dynamicData dynamicOffset)
  show ?case
  proof (cases "isDynamicType (Type param)")
    case True
    from "3.prems" True obtain offsetBytes dynamicEncoded where
      ob: "FillBytes 32 (int dynamicOffset) = Inr offsetBytes" and
      de: "encodeValue (Type param) v = Inr dynamicEncoded" and
      rest: "encodeParametersLoop params values (Suc i) (encoded @ offsetBytes)
               (dynamicData @ dynamicEncoded) (dynamicOffset + length dynamicEncoded)
             = Inr (head, tail)"
      by (auto simp: bind_Inr_iff wrap_Inr_iff)
    from "3.IH"(1) [OF True rest] obtain H T where
      HT: "head = (encoded @ offsetBytes) @ H" "tail = (dynamicData @ dynamicEncoded) @ T"
        "length H = 32 * length params" "sorted_wrt (<) (headOffsets params H)"
        "\<forall>x \<in> set (headOffsets params H).
           dynamicOffset + length dynamicEncoded \<le> x
           \<and> x + 32 \<le> dynamicOffset + length dynamicEncoded + length T"
      by auto
    have lob: "length offsetBytes = 32" using ob by (rule FillBytes_length)
    have val: "be_nat offsetBytes = dynamicOffset"
      using ob by (auto simp: FillBytes_Inr_iff be_nat_be_bytes)
    have lde: "32 \<le> length dynamicEncoded" using de by (rule encodeValue_length)
    have "head = encoded @ (offsetBytes @ H)" "tail = dynamicData @ (dynamicEncoded @ T)"
      using HT by simp_all
    moreover have "length (offsetBytes @ H) = 32 * length (param # params)"
      using HT lob by simp
    moreover have "headOffsets (param # params) (offsetBytes @ H)
                   = dynamicOffset # headOffsets params H"
      using True lob val by simp
    moreover have "sorted_wrt (<) (dynamicOffset # headOffsets params H)"
      using HT(4,5) lde by auto
    moreover have "\<forall>x \<in> set (dynamicOffset # headOffsets params H).
        dynamicOffset \<le> x \<and> x + 32 \<le> dynamicOffset + length (dynamicEncoded @ T)"
      using HT(5) lde by auto
    ultimately show ?thesis by metis
  next
    case False
    from "3.prems" False obtain staticEncoded where
      se: "encodeValue (Type param) v = Inr staticEncoded" and
      rest: "encodeParametersLoop params values (Suc i) (encoded @ staticEncoded)
               dynamicData dynamicOffset = Inr (head, tail)"
      by (auto simp: bind_Inr_iff wrap_Inr_iff)
    from "3.IH"(2) [OF False rest] obtain H T where
      HT: "head = (encoded @ staticEncoded) @ H" "tail = dynamicData @ T"
        "length H = 32 * length params" "sorted_wrt (<) (headOffsets params H)"
        "\<forall>x \<in> set (headOffsets params H). dynamicOffset \<le> x \<and> x + 32 \<le> dynamicOffset + length T"
      by auto
    have lse: "length staticEncoded = 32"
      using se False by (rule encodeValue_static_length)
    have "head = encoded @ (staticEncoded @ H)" using HT by simp
    moreover have "length (staticEncoded @ H) = 32 * length (param # params)"
      using HT lse by simp
    moreover have "headOffsets (param # params) (staticEncoded @ H) = headOffsets params H"
      using False lse by simp
    ultimately show ?thesis using HT(2,4,5) by metis
  qed
qed

lemma EncodeFunctionCall_Inr:
  assumes "EncodeFunctionCall funcName params values = Inr out"
  shows "\<exists>sel encoded dynamicData.
           encodeParametersLoop params values 0 [] [] (length params * 32)
             = Inr (encoded, dynamicData)
           \<and> length params = length values
           \<and> out = sel @ encoded @ dynamicData \<and> length sel = 4"
proof -
  obtain sel where sel: "length sel = 4"
    "EncodeFunctionCall funcName params values =
       bind (wrap FailedToEncodeParameters (encodeParameters params values))
         (\<lambda>encodedParams. Inr (sel @ encodedParams))"
    using EncodeFunctionCall_eq by blast
  from assms sel(2) obtain ep where ep: "encodeParameters params values = Inr ep" "out = sel @ ep"
    by (auto simp: bind_Inr_iff wrap_Inr_iff)
  from ep(1) have len: "length params = length values"
    by (auto simp: encodeParameters_def split: if_splits)
  from ep(1) len obtain encoded dynamicData where
    "encodeParametersLoop params values 0 [] [] (length params * 32) = Inr (encoded, dynamicData)"
    "ep = encoded @ dynamicData"
    by (auto simp: encodeParameters_def bind_Inr_iff)
  then show ?thesis using sel(1) ep(2) len by auto
qed

lemma EncodeFunctionCall_succeeds:
  "encodeParameters params values = Inr ep \<Longrightarrow>
   \<exists>out. EncodeFunctionCall funcName params values = Inr out"
  using EncodeFunctionCall_eq [of funcName params "values"] by auto

lemma FillBytes_nat: "n < 256 ^ k \<Longrightarrow> FillBytes k (int n) = Inr (be_bytes k n)"
  by (simp add: FillBytes_def)

lemma encodeString_VString:
  "length s < 256 ^ 32 \<Longrightarrow>
   encodeString (VString s) =
     Inr (be_bytes 32 (length s) @ bytes_of_string s
          @ (if length s mod 32 = 0 then [] else replicate (32 - length s mod 32) 0))"
  by (simp add: encodeString_def Let_def FillBytes_nat padBytes_32 bytes_of_string_def)

lemma FillBytes_32:
  "FillBytes 32 x =
     (if \<bar>x\<bar> < 2 ^ 256 then Inr (be_bytes 32 (nat \<bar>x\<bar>)) else Inl (Panic BufferTooSmall))"
proof -
  have "(nat \<bar>x\<bar> < 256 ^ 32) = (\<bar>x\<bar> < 2 ^ 256)"
  proof -
    have "(256 :: nat) ^ 32 = nat (2 ^ 256)" by simp
    then show ?thesis by (simp only: nat_less_eq_zless [of "\<bar>x\<bar>"] abs_ge_zero)
  qed
  then show ?thesis by (simp add: FillBytes_def)
qed

lemma encodeUint_VBigInt:
  "encodeUint t (VBigInt x) =
     (if \<bar>x\<bar> < 2 ^ 256 then Inr (be_bytes 32 (nat \<bar>x\<bar>)) else Inl (Panic BufferTooSmall))"
  by (simp add: encodeUint_def FillBytes_32)

lemma length_bytes_of_string [simp]: "length (bytes_of_string s) = length s"
  by (simp add: bytes_of_string_def)

section \<open>Head size and offsets\<close>

text \<open>
  Claim C3. Whenever the call encoder succeeds, its output is the 4-byte selector, the
  head and the tail, and the head (the variable \<open>encoded\<close> at the end of the loop) has
  exactly 32 bytes per parameter, however many parameters are dynamic.
\<close>

theorem head_size:
  assumes "EncodeFunctionCall funcName params values = Inr out"
  shows "\<exists>sel encoded dynamicData.
           encodeParametersLoop params values 0 [] [] (length params * 32)
             = Inr (encoded, dynamicData)
           \<and> out = sel @ encoded @ dynamicData \<and> length sel = 4
           \<and> length encoded = 32 * length params"
proof -
  from EncodeFunctionCall_Inr [OF assms] obtain sel encoded dynamicData where
    l: "encodeParametersLoop params values 0 [] [] (length params * 32)
          = Inr (encoded, dynamicData)"
    and o: "out = sel @ encoded @ dynamicData" "length sel = 4"
    by blast
  from loop_layout [OF l] have "length encoded = 32 * length params" by auto
  with l o show ?thesis by blast
qed

lemma wparams_encode: "\<exists>ep. encodeParameters wparams wvalues = Inr ep"
  by (simp add: wparams_def wvalues_def encodeParameters_def encodeValue.simps HasPrefix_def
      isDynamicType_def FillBytes_32 encodeString_VString encodeUint_VBigInt)

theorem head_size_witness:
  "\<exists>out sel encoded dynamicData.
      EncodeFunctionCall ''note''
        [\<lparr>Name = ''memo'', Type = ''string''\<rparr>, \<lparr>Name = ''amount'', Type = ''uint256''\<rparr>,
         \<lparr>Name = ''tag'', Type = ''string''\<rparr>]
        [VString ''hello'', VBigInt 7, VString ''xy''] = Inr out
      \<and> out = sel @ encoded @ dynamicData \<and> length sel = 4 \<and> length encoded = 96"
proof -
  obtain ep where "encodeParameters wparams wvalues = Inr ep"
    using wparams_encode by blast
  then obtain out where out: "EncodeFunctionCall ''note'' wparams wvalues = Inr out"
    using EncodeFunctionCall_succeeds by blast
  from head_size [OF out] show ?thesis
    using out by (auto simp: wparams_def wvalues_def)
qed

text \<open>
  Claim C4. In a successfully encoded call the offsets written into the head words of the
  dynamic parameters (one per dynamic parameter) are strictly increasing in parameter
  order, and each is at least \<open>32 * len(params)\<close>; each also leaves room for a length word
  inside the argument block. This holds for any number of dynamic parameters, two or more
  included.
\<close>

theorem offsets_increasing:
  assumes "EncodeFunctionCall funcName params values = Inr out"
  shows "length (headOffsets params (take (32 * length params) (drop 4 out)))
           = length (filter (\<lambda>p. isDynamicType (Type p)) params)
         \<and> sorted_wrt (<) (headOffsets params (take (32 * length params) (drop 4 out)))
         \<and> (\<forall>x \<in> set (headOffsets params (take (32 * length params) (drop 4 out))).
               32 * length params \<le> x \<and> x + 32 + 4 \<le> length out)"
proof -
  from EncodeFunctionCall_Inr [OF assms] obtain sel encoded dynamicData where
    l: "encodeParametersLoop params values 0 [] [] (length params * 32)
          = Inr (encoded, dynamicData)"
    and o: "out = sel @ encoded @ dynamicData" "length sel = 4"
    by blast
  from loop_layout [OF l] have
    len: "length encoded = 32 * length params" and
    srt: "sorted_wrt (<) (headOffsets params encoded)" and
    bnd: "\<forall>x \<in> set (headOffsets params encoded).
            length params * 32 \<le> x \<and> x + 32 \<le> length params * 32 + length dynamicData"
    by auto
  have hd: "take (32 * length params) (drop 4 out) = encoded"
    using o len by simp
  have "length out = 4 + 32 * length params + length dynamicData"
    using o len by simp
  with srt bnd show ?thesis
    unfolding hd by (auto simp: length_headOffsets)
qed

theorem offsets_increasing_witness:
  "\<exists>out offs.
      EncodeFunctionCall ''note''
        [\<lparr>Name = ''memo'', Type = ''string''\<rparr>, \<lparr>Name = ''amount'', Type = ''uint256''\<rparr>,
         \<lparr>Name = ''tag'', Type = ''string''\<rparr>]
        [VString ''hello'', VBigInt 7, VString ''xy''] = Inr out
      \<and> offs = headOffsets
           [\<lparr>Name = ''memo'', Type = ''string''\<rparr>, \<lparr>Name = ''amount'', Type = ''uint256''\<rparr>,
            \<lparr>Name = ''tag'', Type = ''string''\<rparr>] (take 96 (drop 4 out))
      \<and> length offs = 2 \<and> sorted_wrt (<) offs \<and> (\<forall>x \<in> set offs. 96 \<le> x)"
proof -
  obtain ep where "encodeParameters wparams wvalues = Inr ep"
    using wparams_encode by blast
  then obtain out where out: "EncodeFunctionCall ''note'' wparams wvalues = Inr out"
    using EncodeFunctionCall_succeeds by blast
  have d: "filter (\<lambda>p. isDynamicType (Type p)) wparams
           = [\<lparr>Name = ''memo'', Type = ''string''\<rparr>, \<lparr>Name = ''tag'', Type = ''string''\<rparr>]"
    by (simp add: wparams_def isDynamicType_def)
  from offsets_increasing [OF out] d show ?thesis
    using out by (auto simp: wparams_def wvalues_def)
qed

section \<open>Integer encoding and decoding\<close>

lemma HasPrefix_uint_not [simp]:
  "HasPrefix t ''uint'' \<Longrightarrow> t \<noteq> ''address''"
  by (auto simp: HasPrefix_def)

lemma encodeValue_uint:
  "HasPrefix t ''uint'' \<Longrightarrow> encodeValue t v = encodeUint t v"
  by (simp add: encodeValue.simps)

lemma encodeUint_tag: "encodeUint t v = encodeUint t' v"
  by (simp add: encodeUint_def)

lemma slice_nat:
  "hi \<le> length xs \<Longrightarrow> lo \<le> hi \<Longrightarrow>
   slice xs (int lo) (int hi) = Inr (take (hi - lo) (drop lo xs))"
  by (simp add: slice_def)

lemma decodeUint_eq:
  "decodeUint data offset =
     (if offset + 32 > length data then Inl (Error InsufficientDataForUint)
      else Inr (SetBytes (take 32 (drop offset data)), offset + 32))"
proof (cases "offset + 32 > length data")
  case True
  then show ?thesis by (simp add: decodeUint_def)
next
  case False
  then have "slice data (int offset) (int (offset + 32)) = Inr (take (offset + 32 - offset) (drop offset data))"
    by (intro slice_nat) simp_all
  then show ?thesis using False by (simp add: decodeUint_def)
qed

lemma decodeValue_uint:
  "HasPrefix t ''uint'' \<Longrightarrow>
   decodeValue t data offset =
     (if offset + 32 > length data then Inl (Error InsufficientDataForUint)
      else Inr (VBigInt (int (be_nat (take 32 (drop offset data)))), offset + 32))"
  by (simp add: decodeValue_def decodeUint_eq SetBytes_def)

lemma be_nat_bound: "be_nat bs < 256 ^ length bs"
proof (induction bs rule: rev_induct)
  case Nil
  then show ?case by simp
next
  case (snoc b bs)
  have "unat b < 256" using unsigned_less [of b] by simp
  with snoc show ?case by (simp add: be_nat_append)
qed

text \<open>
  Claim C10. Under every tag that starts with \<open>uint\<close> the declared width plays no part:
  the encoder returns for any value what it returns under \<open>uint256\<close>, for every integer
  in \<open>[0, 2^256)\<close> its 32-byte big-endian word; the decoder consumes one full 32-byte word
  and returns its whole unsigned big-endian value.
\<close>

theorem width_ignored:
  assumes "HasPrefix abiType ''uint''"
  shows "(\<forall>v. encodeValue abiType v = encodeValue ''uint256'' v)
       \<and> (\<forall>x. 0 \<le> x \<and> x < 2 ^ 256 \<longrightarrow>
              encodeValue abiType (VBigInt x) = Inr (be_bytes 32 (nat x)))
       \<and> (\<forall>data offset. decodeValue abiType data offset =
              (if offset + 32 > length data then Inl (Error InsufficientDataForUint)
               else Inr (VBigInt (int (be_nat (take 32 (drop offset data)))), offset + 32)))"
proof -
  have u: "HasPrefix ''uint256'' ''uint''" by (simp add: HasPrefix_def)
  have "encodeValue abiType v = encodeValue ''uint256'' v" for v
    using encodeValue_uint [OF assms, of v] encodeValue_uint [OF u, of v]
      encodeUint_tag [of abiType v "''uint256''"] by simp
  moreover have "encodeValue abiType (VBigInt x) = Inr (be_bytes 32 (nat x))"
    if "0 \<le> x \<and> x < 2 ^ 256" for x
    using that by (simp add: encodeValue_uint [OF assms] encodeUint_VBigInt)
  ultimately show ?thesis
    using decodeValue_uint [OF assms] by simp
qed

theorem width_ignored_witness:
  "HasPrefix ''uint8'' ''uint''
   \<and> encodeValue ''uint8'' (VBigInt 300) = Inr (be_bytes 32 300)
   \<and> encodeValue ''uint8'' (VBigInt 300) = encodeValue ''uint256'' (VBigInt 300)
   \<and> decodeValue ''uint8'' (be_bytes 32 300) 0 = Inr (VBigInt 300, 32)"
proof -
  have h: "HasPrefix ''uint8'' ''uint''" by (simp add: HasPrefix_def)
  have b: "be_nat (be_bytes 32 300) = 300" by (rule be_nat_be_bytes) simp
  note w = width_ignored [OF h]
  from w have e: "encodeValue ''uint8'' (VBigInt 300) = Inr (be_bytes 32 (nat 300))"
    by (elim conjE allE [of _ "300 :: int"]) simp
  from w have s: "encodeValue ''uint8'' (VBigInt 300) = encodeValue ''uint256'' (VBigInt 300)"
    by blast
  from w have "decodeValue ''uint8'' (be_bytes 32 300) 0 =
      (if 0 + 32 > length (be_bytes 32 300) then Inl (Error InsufficientDataForUint)
       else Inr (VBigInt (int (be_nat (take 32 (drop 0 (be_bytes 32 300))))), 0 + 32))"
    by blast
  then have d: "decodeValue ''uint8'' (be_bytes 32 300) 0 = Inr (VBigInt 300, 32)"
    using b by simp
  from h e s d show ?thesis by simp
qed

lemma be_bytes_small: "n < 256 \<Longrightarrow> be_bytes (Suc k) n = replicate k 0 @ [of_nat n]"
  by (simp add: be_bytes_zero)

lemma be_bytes_32_1: "be_bytes 32 (Suc 0) = replicate 31 0 @ [1]"
  using be_bytes_small [of 1 31] by simp

text \<open>
  Claim C5 (as stated it fails). Under an unsigned tag the encoder returns no error for a
  negative big integer (here \<open>-1\<close>, which gives an encoded word), and none for a big
  integer of more than 256 bits (here \<open>2^256\<close>, on which \<open>FillBytes\<close> panics).
\<close>

theorem unsigned_range_errors_counterexample:
  "encodeValue ''uint256'' (VBigInt (- 1)) = Inr (replicate 31 0 @ [1])
   \<and> encodeValue ''uint256'' (VBigInt (2 ^ 256)) = Inl (Panic BufferTooSmall)"
  by (simp add: encodeValue.simps HasPrefix_def encodeUint_VBigInt be_bytes_32_1)

text \<open>
  Claim C5, amended. Under every tag that starts with \<open>uint\<close> the encoder never returns
  an error result for a big-integer value: a value in \<open>[0, 2^256)\<close> is encoded as its
  32-byte big-endian word, and a value whose magnitude is \<open>2^256\<close> or more makes
  \<open>FillBytes\<close> panic, so that neither an error nor a word is returned.
\<close>

theorem unsigned_big_integer:
  assumes "HasPrefix abiType ''uint''"
  shows "(0 \<le> x \<and> x < 2 ^ 256 \<longrightarrow>
            encodeValue abiType (VBigInt x) = Inr (be_bytes 32 (nat x)))
       \<and> (2 ^ 256 \<le> \<bar>x\<bar> \<longrightarrow> encodeValue abiType (VBigInt x) = Inl (Panic BufferTooSmall))
       \<and> (\<forall>e. encodeValue abiType (VBigInt x) \<noteq> Inl (Error e))"
  by (simp add: encodeValue_uint [OF assms] encodeUint_VBigInt)

theorem unsigned_big_integer_witness:
  "HasPrefix ''uint64'' ''uint''
   \<and> encodeValue ''uint64'' (VBigInt 5) = Inr (be_bytes 32 5)
   \<and> encodeValue ''uint64'' (VBigInt (- (2 ^ 256))) = Inl (Panic BufferTooSmall)"
proof -
  have h: "HasPrefix ''uint64'' ''uint''" by (simp add: HasPrefix_def)
  from unsigned_big_integer [OF h, of 5] unsigned_big_integer [OF h, of "- (2 ^ 256)"]
  show ?thesis using h by simp
qed

text \<open>
  Claim C6 (the code departs from it). \<open>encodeInt\<close> hands the value to \<open>encodeUint\<close>,
  which writes the magnitude: \<open>-1\<close> under \<open>int256\<close> is encoded as the word of \<open>1\<close>, not
  as 32 bytes \<open>0xff\<close>.
\<close>

theorem signed_minus_one:
  "encodeValue ''int256'' (VBigInt (- 1)) = Inr (replicate 31 0 @ [1])
   \<and> encodeValue ''int256'' (VBigInt (- 1)) \<noteq> Inr (replicate 32 255)
   \<and> encodeValue ''int256'' (VBigInt (- 1)) = encodeValue ''int256'' (VBigInt 1)"
proof -
  have "encodeValue ''int256'' (VBigInt x) = encodeUint ''int256'' (VBigInt x)" for x
    by (simp add: encodeValue.simps HasPrefix_def encodeInt_def)
  moreover have "replicate 31 0 @ [1] \<noteq> replicate 32 (255 :: byte)"
  proof
    assume "replicate 31 0 @ [1] = replicate 32 (255 :: byte)"
    then have "last (replicate 31 0 @ [1]) = last (replicate 32 (255 :: byte))" by simp
    then show False by simp
  qed
  ultimately show ?thesis
    by (simp add: encodeUint_VBigInt be_bytes_32_1)
qed

section \<open>Offsets and lengths read by the string decoder\<close>

lemma be_nat_append_list: "be_nat (xs @ ys) = be_nat xs * 256 ^ length ys + be_nat ys"
proof (induction ys rule: rev_induct)
  case Nil
  then show ?case by simp
next
  case (snoc y ys)
  have "be_nat (xs @ ys @ [y]) = be_nat ((xs @ ys) @ [y])" by simp
  also have "\<dots> = be_nat (xs @ ys) * 256 + unat y" by (rule be_nat_append)
  finally show ?case by (simp add: snoc.IH be_nat_append algebra_simps)
qed

lemma be_nat_replicate_zero [simp]: "be_nat (replicate k 0) = 0"
  using be_nat_be_bytes [of 0 k] by (simp add: be_bytes_zero)

lemma be_nat_single [simp]: "be_nat [b] = unat b"
  by (simp add: be_nat_def)

lemma be_nat_Cons: "be_nat (x # xs) = unat x * 256 ^ length xs + be_nat xs"
  using be_nat_append_list [of "[x]" xs] by simp

lemma be_nat_replicate_255: "be_nat (replicate k 255) = 256 ^ k - 1"
proof (induction k)
  case 0
  then show ?case by simp
next
  case (Suc k)
  have "replicate (Suc k) (255 :: byte) = replicate k 255 @ [255]"
    by (simp add: replicate_append_same)
  then have "be_nat (replicate (Suc k) 255) = be_nat (replicate k 255) * 256 + 255"
    by (simp only: be_nat_append) simp
  also have "\<dots> = (256 ^ k - 1) * 256 + 255" by (simp add: Suc.IH)
  also have "\<dots> = 256 ^ Suc k - 1"
  proof -
    have "(1 :: nat) \<le> 256 ^ k" by simp
    then show ?thesis by (simp add: algebra_simps)
  qed
  finally show ?case .
qed

lemma Int64_all_ones: "Int64 (SetBytes (replicate 32 255)) = - 1"
  by (simp add: Int64_def SetBytes_def be_nat_replicate_255
      signed_take_bit_eq_take_bit_shift take_bit_eq_mod)

lemma Int64_two_pow_64: "Int64 (SetBytes (replicate 23 0 @ 1 # replicate 8 0)) = 0"
  by (simp add: Int64_def SetBytes_def be_nat_append_list be_nat_Cons
      signed_take_bit_eq_take_bit_shift take_bit_eq_mod)

text \<open>
  Claim C7 (the code departs from it). The three checks of \<open>decodeString\<close> compare
  \<open>int64\<close> values that were cut from 256-bit words. With the offset word \<open>2^256 - 1\<close> the
  offset becomes \<open>-1\<close>, passes the check and the slice expression panics; with the offset
  word \<open>2^64\<close>, far beyond the 32 bytes of data, the offset becomes \<open>0\<close> and the decoder
  returns the empty string instead of an error.
\<close>

theorem string_offset_unchecked:
  "DecodeFunctionResult [''string''] (replicate 32 255) = Inl (Panic SliceBoundsOutOfRange)
   \<and> DecodeFunctionResult [''string''] (replicate 23 0 @ [1] @ replicate 8 0)
       = Inr [VString '''']"
proof -
  have "DecodeFunctionResult [''string''] (replicate 32 255)
        = Inl (Panic SliceBoundsOutOfRange)"
    by (simp add: DecodeFunctionResult_def decodeValue_def HasPrefix_def decodeString_def
        slice_def Int64_all_ones int_add_def signed_take_bit_eq_take_bit_shift take_bit_eq_mod)
  moreover have "DecodeFunctionResult [''string''] (replicate 23 0 @ [1] @ replicate 8 0)
        = Inr [VString '''']"
    by (simp add: DecodeFunctionResult_def decodeValue_def HasPrefix_def decodeString_def
        slice_def Int64_two_pow_64 int_add_def signed_take_bit_eq_take_bit_shift
        take_bit_eq_mod string_of_bytes_def)
  ultimately show ?thesis by simp
qed

section \<open>The selector\<close>

lemma hash_fold_short:
  "length d \<le> 32 \<Longrightarrow>
   foldl (\<lambda>hash (i, b). hash[i mod 32 := (hash ! (i mod 32)) XOR b]) (replicate 32 0)
     (enumerate 0 d) = d @ replicate (32 - length d) 0"
proof (induction d rule: rev_induct)
  case Nil
  then show ?case by simp
next
  case (snoc b d)
  then have len: "length d < 32" by simp
  then have IH: "foldl (\<lambda>hash (i, b). hash[i mod 32 := (hash ! (i mod 32)) XOR b])
      (replicate 32 0) (enumerate 0 d) = d @ replicate (32 - length d) 0"
    using snoc.IH by simp
  obtain n where n: "32 - length d = Suc n"
    using len by (cases "32 - length d") simp_all
  then have n': "31 - length d = n" by arith
  show ?case
    using len by (simp add: enumerate_append_eq IH list_update_append nth_append n n')
qed

lemma Keccak256_short:
  "length d \<le> 32 \<Longrightarrow> Keccak256 d = EncodeToString (d @ replicate (32 - length d) 0)"
  by (simp add: Keccak256_def hash_fold_short)

lemma selector_short:
  assumes "4 \<le> length d" "length d \<le> 32"
  shows "DecodeString (take 8 (Keccak256 d)) = (take 4 d, True)"
proof -
  have "take 8 (Keccak256 d) = EncodeToString (take 4 (d @ replicate (32 - length d) 0))"
    using take_EncodeToString [of 4] assms by (simp add: Keccak256_short)
  also have "take 4 (d @ replicate (32 - length d) 0) = take 4 d"
    using assms by simp
  finally show ?thesis by (simp add: DecodeString_EncodeToString)
qed

lemma fromHexChar_0_1 [simp]:
  "fromHexChar CHR ''0'' = Some 0" "fromHexChar CHR ''1'' = Some 1"
  by (simp_all add: fromHexChar_def)

lemma transfer_signature:
  "createFunctionSignature ''transfer''
       [\<lparr>Name = ''to'', Type = ''address''\<rparr>, \<lparr>Name = ''amount'', Type = ''uint256''\<rparr>]
     = ''transfer(address,uint256)''"
  by (simp add: createFunctionSignature_def)

lemma transfer_selector:
  "DecodeString (take 8 (Keccak256 (bytes_of_string ''transfer(address,uint256)'')))
   = ([0x74, 0x72, 0x61, 0x6e], True)"
  by (subst selector_short) (simp_all add: bytes_of_string_def)

lemma address_one:
  "encodeAddress (VString ''0x0000000000000000000000000000000000000001'')
   = Inr (replicate 31 0 @ [1])"
  by (simp add: encodeAddress_def ValidateAddress_def HasPrefix_def TrimPrefix_def
      replicate_append_same [symmetric] eval_nat_numeral)

lemma amount_word: "be_bytes 32 1000000 = replicate 29 0 @ [0x0f, 0x42, 0x40]"
proof -
  have a: "be_bytes 32 1000000 = be_bytes 31 3906 @ [0x40]"
    by (subst be_bytes_numeral) simp
  have b: "be_bytes 31 3906 = be_bytes 30 15 @ [0x42]"
    by (subst be_bytes_numeral) simp
  have c: "be_bytes 30 15 = be_bytes 29 0 @ [0x0f]"
    by (subst be_bytes_numeral) simp
  show ?thesis by (simp add: a b c be_bytes_zero)
qed

text \<open>
  Claim C2 (the code departs from it). For \<open>transfer(address,uint256)\<close> with the
  address of value 1 and the amount 1000000 the call encoder returns the selector, the
  address word and the amount word, and no tail; but the selector, the first four bytes
  of what \<open>Keccak256\<close> computes, is \<open>74 72 61 6e\<close> (the bytes of \<open>tran\<close>, since the
  xor fold leaves an input of at most 32 bytes as it is), not \<open>a9 05 9c bb\<close>.
\<close>

theorem transfer_call_data:
  "EncodeFunctionCall ''transfer''
     [\<lparr>Name = ''to'', Type = ''address''\<rparr>, \<lparr>Name = ''amount'', Type = ''uint256''\<rparr>]
     [VString ''0x0000000000000000000000000000000000000001'', VBigInt 1000000]
   = Inr ([0x74, 0x72, 0x61, 0x6e] @ (replicate 31 0 @ [1])
          @ (replicate 29 0 @ [0x0f, 0x42, 0x40]))
   \<and> [0x74, 0x72, 0x61, 0x6e] \<noteq> [0xa9, 0x05, 0x9c, 0xbb :: byte]"
  by (simp add: EncodeFunctionCall_def transfer_signature transfer_selector
      encodeParameters_def encodeValue.simps HasPrefix_def isDynamicType_def
      address_one encodeUint_VBigInt amount_word)

section \<open>Decoding what the encoder wrote\<close>

lemma Int64_small: "0 \<le> x \<Longrightarrow> x < 2 ^ 63 \<Longrightarrow> Int64 x = x"
  unfolding Int64_def by (rule signed_take_bit_int_eq_self) simp_all

lemma int_add_small: "0 \<le> a \<Longrightarrow> 0 \<le> b \<Longrightarrow> a + b < 2 ^ 63 \<Longrightarrow> int_add a b = a + b"
  unfolding int_add_def by (rule signed_take_bit_int_eq_self) simp_all

lemma slice_nat_len:
  "lo + n \<le> length xs \<Longrightarrow> slice xs (int lo) (int lo + int n) = Inr (take n (drop lo xs))"
  by (simp add: slice_def nat_add_distrib)

lemma string_of_bytes_of_string [simp]: "string_of_bytes (bytes_of_string s) = s"
proof -
  have "char_of (unat (of_char c :: byte)) = c" for c
  proof -
    have "(of_char c :: byte) = of_nat (of_char c)" by (simp add: of_nat_of_char)
    then have "unat (of_char c :: byte) = (of_char c :: nat) mod 256"
      by (simp only: unat_of_nat) simp
    then show ?thesis by simp
  qed
  then show ?thesis
    by (simp add: string_of_bytes_def bytes_of_string_def comp_def)
qed

lemma decodeString_ok:
  assumes pos: "pos + 32 \<le> length data"
    and w: "take 32 (drop pos data) = be_bytes 32 off"
    and fit: "off + 32 + n \<le> length data"
    and len: "length data < 2 ^ 63"
    and lw: "take 32 (drop off data) = be_bytes 32 n"
    and content: "take n (drop (off + 32) data) = bs"
  shows "decodeString data pos = Inr (string_of_bytes bs, pos + 32)"
proof -
  have big: "(2 :: nat) ^ 63 \<le> 256 ^ 32" by simp
  have off63: "off < 2 ^ 63" and n63: "n < 2 ^ 63" using fit len by simp_all
  have s1: "slice data (int pos) (int pos + 32) = Inr (be_bytes 32 off)"
    using slice_nat_len [of pos 32 data] pos w by simp
  have so: "Int64 (SetBytes (be_bytes 32 off)) = int off"
  proof -
    have "be_nat (be_bytes 32 off) = off"
      using off63 big by (intro be_nat_be_bytes) simp
    moreover have "int off < 2 ^ 63" using off63 by simp
    ultimately show ?thesis by (simp add: SetBytes_def Int64_small)
  qed
  have a1: "int_add (int off) 32 = int off + 32"
  proof -
    have "off + 32 < 2 ^ 63" using fit len by simp
    then have "int off + 32 < 2 ^ 63" by simp
    then show ?thesis by (intro int_add_small) simp_all
  qed
  have s2: "slice data (int off) (int off + 32) = Inr (be_bytes 32 n)"
    using slice_nat_len [of off 32 data] fit lw by simp
  have ln: "Int64 (SetBytes (be_bytes 32 n)) = int n"
  proof -
    have "be_nat (be_bytes 32 n) = n"
      using n63 big by (intro be_nat_be_bytes) simp
    moreover have "int n < 2 ^ 63" using n63 by simp
    ultimately show ?thesis by (simp add: SetBytes_def Int64_small)
  qed
  have a2: "int_add (int off + 32) (int n) = int off + 32 + int n"
  proof -
    have "off + 32 + n < 2 ^ 63" using fit len by simp
    then have "int off + 32 + int n < 2 ^ 63" by simp
    then show ?thesis by (intro int_add_small) simp_all
  qed
  have s3: "slice data (int off + 32) (int off + 32 + int n) = Inr bs"
    using slice_nat_len [of "off + 32" n data] fit content by simp
  have c1: "\<not> int off + 32 > int (length data)" using fit by simp
  have c2: "\<not> int off + 32 + int n > int (length data)" using fit by simp
  show ?thesis
    using pos c1 c2 by (simp add: decodeString_def s1 so a1 s2 ln a2 s3 Let_def)
qed

lemma DecodeString_length: "DecodeString s = (bs, True) \<Longrightarrow> length s = 2 * length bs"
proof (induction s arbitrary: bs rule: DecodeString.induct)
  case 1
  then show ?case by simp
next
  case (2 p)
  then show ?case by simp
next
  case (3 p q cs)
  from "3.prems" obtain a b where ab: "fromHexChar p = Some a" "fromHexChar q = Some b"
    by (auto split: option.splits)
  from "3.prems" ab obtain bs' where bs': "DecodeString cs = (bs', True)" "bs = of_nat (16 * a + b) # bs'"
    by (auto split: prod.splits)
  from "3.IH" [OF refl ab(1) ab(2) bs'(1)] show ?case using bs'(2) by simp
qed

lemma encodeAddress_valid:
  assumes "ValidateAddress a"
  shows "\<exists>ab. length ab = 20 \<and> fst (DecodeString (drop 2 a)) = ab
           \<and> encodeAddress (VString a) = Inr (replicate 12 0 @ ab)"
proof -
  from assms have p: "HasPrefix a ''0x''" and l: "length a = 42"
    and ok: "snd (DecodeString (drop 2 a))"
    by (auto simp: ValidateAddress_def split: if_splits)
  obtain ab where ab: "DecodeString (drop 2 a) = (ab, True)"
    using ok by (cases "DecodeString (drop 2 a)") auto
  from DecodeString_length [OF ab] l have len: "length ab = 20" by simp
  have "TrimPrefix a ''0x'' = drop 2 a" using p by (simp add: TrimPrefix_def numeral_2_eq_2)
  then have "encodeAddress (VString a) = Inr (replicate 12 0 @ ab)"
    using assms ab len by (simp add: encodeAddress_def Let_def)
  with len ab show ?thesis by simp
qed

lemma word_at:
  assumes "data = A @ w @ B" "length w = 32"
  shows "take 32 (drop (length A) data) = w" "length A + 32 \<le> length data"
  using assms by simp_all

lemma roundtrip_address:
  assumes "ValidateAddress a" "encodeValue ''address'' (VString a) = Inr w" "data = A @ w @ B"
  shows "decodeValue ''address'' data (length A)
         = Inr (decodedForm ''address'' (VString a), length A + 32)"
proof -
  from encodeAddress_valid [OF assms(1)] obtain ab where
    ab: "length ab = 20" "fst (DecodeString (drop 2 a)) = ab"
      "encodeAddress (VString a) = Inr (replicate 12 0 @ ab)"
    by blast
  from assms(2) ab(3) have w: "w = replicate 12 0 @ ab"
    by (simp add: encodeValue.simps)
  have "slice data (int (length A) + 12) (int (length A) + 32) = Inr ab"
    using ab(1) by (simp add: slice_def assms(3) w nat_add_distrib)
  then show ?thesis
    using ab(1,2) by (simp add: decodeValue_def decodeAddress_def decodedForm_def assms(3) w)
qed

lemma roundtrip_uint:
  assumes "HasPrefix t ''uint''" "0 \<le> x" "x < 2 ^ 256"
    "encodeValue t (VBigInt x) = Inr w" "data = A @ w @ B"
  shows "decodeValue t data (length A) = Inr (VBigInt x, length A + 32)"
proof -
  from assms have w: "w = be_bytes 32 (nat x)"
    by (simp add: encodeValue_uint encodeUint_VBigInt)
  have "nat x < 256 ^ 32"
  proof -
    have "(256 :: nat) ^ 32 = nat (2 ^ 256)" by simp
    then show ?thesis using assms(2,3) by (simp only: nat_less_eq_zless)
  qed
  then have "be_nat w = nat x" unfolding w by (rule be_nat_be_bytes)
  then show ?thesis
    using assms(1,2) by (simp add: decodeValue_uint assms(5) w)
qed

lemma roundtrip_bool:
  assumes "encodeValue ''bool'' (VBool b) = Inr w" "data = A @ w @ B"
  shows "decodeValue ''bool'' data (length A) = Inr (VBool b, length A + 32)"
proof -
  from assms(1) have w: "w = (replicate 32 0)[31 := (if b then 1 else 0)]"
    by (auto simp: encodeValue.simps HasPrefix_def encodeBool_def)
  then have lw: "length w = 32" by simp
  have "data ! (length A + 31) = w ! 31"
    using lw by (simp add: assms(2) nth_append)
  also have "\<dots> = (if b then 1 else 0)" by (simp add: w)
  finally show ?thesis
    using lw by (simp add: decodeValue_def HasPrefix_def decodeBool_def assms(2))
qed

lemma encodeValue_string:
  "encodeValue ''string'' (VString s) = Inr seg \<Longrightarrow>
   seg = be_bytes 32 (length s) @ bytes_of_string s
         @ (if length s mod 32 = 0 then [] else replicate (32 - length s mod 32) 0)"
  by (auto simp: encodeValue.simps HasPrefix_def encodeString_def Let_def bind_Inr_iff
      FillBytes_Inr_iff padBytes_32 split: if_splits)

lemma roundtrip_string:
  assumes enc: "encodeValue ''string'' (VString s) = Inr seg"
    and ob: "FillBytes 32 (int off) = Inr w"
    and data: "data = A @ w @ B"
    and tail: "drop off data = seg @ Y"
    and off: "off \<le> length data"
    and len: "length data < 2 ^ 63"
  shows "decodeValue ''string'' data (length A) = Inr (VString s, length A + 32)"
proof -
  define pad where "pad = (if length s mod 32 = 0 then [] else replicate (32 - length s mod 32) (0 :: byte))"
  have seg: "seg = be_bytes 32 (length s) @ bytes_of_string s @ pad"
    using encodeValue_string [OF enc] by (simp add: pad_def)
  have w: "w = be_bytes 32 off" using ob by (simp add: FillBytes_Inr_iff)
  have "length (drop off data) = length (seg @ Y)" using tail by simp
  then have fit: "off + 32 + length s \<le> length data"
    using off by (simp add: seg)
  have 1: "length A + 32 \<le> length data" by (simp add: data w)
  have 2: "take 32 (drop (length A) data) = be_bytes 32 off" by (simp add: data w)
  have 3: "take 32 (drop off data) = be_bytes 32 (length s)" by (simp add: tail seg)
  have "drop (off + 32) data = drop 32 (drop off data)" by (simp add: add.commute)
  then have 4: "take (length s) (drop (off + 32) data) = bytes_of_string s"
    by (simp add: tail seg)
  from decodeString_ok [OF 1 2 fit len 3 4] show ?thesis
    by (simp add: decodeValue_def HasPrefix_def)
qed

lemma supported_dynamic:
  "supportedValue t v \<Longrightarrow> isDynamicType t \<Longrightarrow> t = ''string'' \<and> (\<exists>s. v = VString s)"
  by (cases v) (auto simp: supportedValue_def)

lemma roundtrip_static:
  assumes "supportedValue t v" "\<not> isDynamicType t" "encodeValue t v = Inr w"
    "data = A @ w @ B"
  shows "decodeValue t data (length A) = Inr (decodedForm t v, length A + 32)"
proof (cases v)
  case (VString s)
  with assms(1,2) have t: "t = ''address''" and va: "ValidateAddress s"
    by (auto simp: supportedValue_def)
  from roundtrip_address [OF va _ assms(4)] assms(3) show ?thesis
    by (simp add: t VString)
next
  case (VBigInt x)
  with assms(1) have "HasPrefix t ''uint''" "0 \<le> x" "x < 2 ^ 256"
    by (auto simp: supportedValue_def)
  from roundtrip_uint [OF this _ assms(4)] assms(3) show ?thesis
    by (simp add: VBigInt decodedForm_def)
next
  case (VBool b)
  with assms(1) have t: "t = ''bool''" by (auto simp: supportedValue_def)
  from roundtrip_bool [OF _ assms(4)] assms(3) show ?thesis
    by (simp add: t VBool decodedForm_def)
qed (use assms(1) in \<open>simp_all add: supportedValue_def\<close>)

lemma roundtrip_loop:
  assumes "encodeParametersLoop ps vs i enc dyn off = Inr (head, tail)"
    and "list_all2 (\<lambda>p v. supportedValue (Type p) v) ps vs"
    and "off = length enc + 32 * length ps + length dyn"
    and "length (head @ tail) < 2 ^ 63"
  shows "decodeLoop (map Type ps) (head @ tail) (length enc) results
         = Inr (results @ map2 (\<lambda>p v. decodedForm (Type p) v) ps vs)"
  using assms
proof (induction ps arbitrary: vs i enc dyn off results)
  case Nil
  then show ?case by simp
next
  case (Cons p ps)
  from Cons.prems(2) obtain v vs' where vs: "vs = v # vs'"
    and sv: "supportedValue (Type p) v"
    and rest_ok: "list_all2 (\<lambda>p v. supportedValue (Type p) v) ps vs'"
    by (auto simp: list_all2_Cons1)
  define data where "data = head @ tail"
  show ?case
  proof (cases "isDynamicType (Type p)")
    case True
    from supported_dynamic [OF sv True] obtain s where
      t: "Type p = ''string''" and v: "v = VString s" by blast
    from Cons.prems(1) True obtain w seg where
      ob: "FillBytes 32 (int off) = Inr w" and
      de: "encodeValue (Type p) v = Inr seg" and
      rest: "encodeParametersLoop ps vs' (Suc i) (enc @ w) (dyn @ seg) (off + length seg)
             = Inr (head, tail)"
      by (auto simp: vs bind_Inr_iff wrap_Inr_iff)
    have lw: "length w = 32" using ob by (rule FillBytes_length)
    from loop_layout [OF rest] obtain H T where
      HT: "head = (enc @ w) @ H" "tail = (dyn @ seg) @ T" "length H = 32 * length ps"
      by blast
    have d1: "data = enc @ w @ (H @ tail)" by (simp add: data_def HT(1))
    have offv: "off = length head + length dyn"
      using Cons.prems(3) HT(1,3) lw by simp
    then have d2: "drop off data = seg @ T"
      by (simp add: data_def HT(2))
    have d3: "off \<le> length data" using offv by (simp add: data_def HT(2))
    have d4: "length data < 2 ^ 63" using Cons.prems(4) by (simp add: data_def)
    have dv: "decodeValue (Type p) data (length enc) = Inr (VString s, length enc + 32)"
      using roundtrip_string [OF _ ob d1 d2 d3 d4, of s] de by (simp add: t v)
    have IH: "decodeLoop (map Type ps) data (length (enc @ w)) (results @ [VString s])
        = Inr ((results @ [VString s]) @ map2 (\<lambda>p v. decodedForm (Type p) v) ps vs')"
      unfolding data_def
      by (rule Cons.IH [OF rest rest_ok _ Cons.prems(4)])
         (use Cons.prems(3) lw in simp)
    have "length enc + 32 \<le> length data" by (simp add: d1 lw)
    then show ?thesis
      using dv IH lw
      by (simp add: vs data_def [symmetric] v t decodedForm_def)
  next
    case False
    from Cons.prems(1) False obtain w where
      se: "encodeValue (Type p) v = Inr w" and
      rest: "encodeParametersLoop ps vs' (Suc i) (enc @ w) dyn off = Inr (head, tail)"
      by (auto simp: vs bind_Inr_iff wrap_Inr_iff)
    have lw: "length w = 32" using se False by (rule encodeValue_static_length)
    from loop_layout [OF rest] obtain H T where
      HT: "head = (enc @ w) @ H" "tail = dyn @ T" "length H = 32 * length ps"
      by blast
    have d1: "data = enc @ w @ (H @ tail)" by (simp add: data_def HT(1))
    have dv: "decodeValue (Type p) data (length enc)
              = Inr (decodedForm (Type p) v, length enc + 32)"
      by (rule roundtrip_static [OF sv False se d1])
    have IH: "decodeLoop (map Type ps) data (length (enc @ w))
          (results @ [decodedForm (Type p) v])
        = Inr ((results @ [decodedForm (Type p) v])
               @ map2 (\<lambda>p v. decodedForm (Type p) v) ps vs')"
      unfolding data_def
      by (rule Cons.IH [OF rest rest_ok _ Cons.prems(4)])
         (use Cons.prems(3) lw in simp)
    have "length enc + 32 \<le> length data" by (simp add: d1 lw)
    then show ?thesis
      using dv IH lw
      by (simp add: vs data_def [symmetric])
  qed
qed

lemma EncodeFunctionCall_args:
  assumes "EncodeFunctionCall funcName params values = Inr out"
  shows "encodeParameters params values = Inr (drop 4 out)"
proof -
  from EncodeFunctionCall_Inr [OF assms] obtain sel encoded dynamicData where
    "encodeParametersLoop params values 0 [] [] (length params * 32)
       = Inr (encoded, dynamicData)"
    "length params = length values" "out = sel @ encoded @ dynamicData" "length sel = 4"
    by blast
  then show ?thesis by (simp add: encodeParameters_def)
qed

lemma encodeParameters_roundtrip:
  assumes ne: "params \<noteq> []"
    and sup: "list_all2 (\<lambda>p v. supportedValue (Type p) v) params values"
    and enc: "encodeParameters params values = Inr data"
    and len: "length data < 2 ^ 63"
  shows "DecodeFunctionResult (map Type params) data
         = Inr (map2 (\<lambda>p v. decodedForm (Type p) v) params values)"
proof -
  from enc obtain head tail where
    l: "encodeParametersLoop params values 0 [] [] (length params * 32) = Inr (head, tail)"
    and d: "data = head @ tail"
    by (auto simp: encodeParameters_def bind_Inr_iff split: if_splits)
  from loop_layout [OF l] have "length head = 32 * length params" by auto
  with ne d have nonempty: "length data \<noteq> 0" by simp
  have "decodeLoop (map Type params) (head @ tail) (length ([] :: byte list)) []
        = Inr ([] @ map2 (\<lambda>p v. decodedForm (Type p) v) params values)"
    by (rule roundtrip_loop [OF l sup]) (use len d in simp_all)
  then show ?thesis
    using nonempty by (simp add: DecodeFunctionResult_def d)
qed

section \<open>Round trip\<close>

lemma decodedForm_address_bytes:
  assumes "ValidateAddress a" "decodedForm ''address'' (VString a) = VString a'"
  shows "ValidateAddress a' \<and> DecodeString (drop 2 a') = DecodeString (drop 2 a)"
proof -
  from encodeAddress_valid [OF assms(1)] obtain ab where
    ab: "length ab = 20" "fst (DecodeString (drop 2 a)) = ab" by blast
  from assms(1) have ok: "snd (DecodeString (drop 2 a))"
    by (auto simp: ValidateAddress_def split: if_splits)
  from assms(2) ab(2) have a': "a' = ''0x'' @ EncodeToString ab"
    by (simp add: decodedForm_def)
  have d: "DecodeString (drop 2 a') = (ab, True)"
    by (simp add: a' DecodeString_EncodeToString)
  have "DecodeString (drop 2 a) = (ab, True)"
    using ab(2) ok by (cases "DecodeString (drop 2 a)") simp
  moreover have "ValidateAddress a'"
    using d ab(1) by (simp add: ValidateAddress_def) (simp add: a' HasPrefix_def)
  ultimately show ?thesis using d by simp
qed

lemma supported_static_encodes:
  assumes "supportedValue t v" "\<not> isDynamicType t"
  shows "\<exists>w. encodeValue t v = Inr w"
proof (cases v)
  case (VString s)
  with assms have t: "t = ''address''" and va: "ValidateAddress s"
    by (auto simp: supportedValue_def)
  from encodeAddress_valid [OF va] show ?thesis
    by (auto simp: t VString encodeValue.simps)
next
  case (VBigInt x)
  with assms(1) have "HasPrefix t ''uint''" "0 \<le> x" "x < 2 ^ 256"
    by (auto simp: supportedValue_def)
  then show ?thesis
    by (simp add: VBigInt encodeValue_uint encodeUint_VBigInt)
next
  case (VBool b)
  with assms(1) have t: "t = ''bool''" by (auto simp: supportedValue_def)
  show ?thesis
    by (simp add: t VBool encodeValue.simps HasPrefix_def encodeBool_def)
qed (use assms(1) in \<open>simp_all add: supportedValue_def\<close>)

lemma supported_loop_encodes:
  assumes "list_all2 (\<lambda>p v. supportedValue (Type p) v) ps vs"
    and "off + sum_list (map2 (\<lambda>p v. payloadSize (Type p) v) ps vs) < 256 ^ 32"
  shows "\<exists>head tail. encodeParametersLoop ps vs i enc dyn off = Inr (head, tail)
           \<and> length head + length tail
               = length enc + length dyn + 32 * length ps
                 + sum_list (map2 (\<lambda>p v. payloadSize (Type p) v) ps vs)"
  using assms
proof (induction ps arbitrary: vs i enc dyn off)
  case Nil
  then show ?case by simp
next
  case (Cons p ps)
  from Cons.prems(1) obtain v vs' where vs: "vs = v # vs'"
    and sv: "supportedValue (Type p) v"
    and rest_ok: "list_all2 (\<lambda>p v. supportedValue (Type p) v) ps vs'"
    by (auto simp: list_all2_Cons1)
  show ?case
  proof (cases "isDynamicType (Type p)")
    case True
    from supported_dynamic [OF sv True] obtain s where
      t: "Type p = ''string''" and v: "v = VString s" by blast
    define seg where "seg = be_bytes 32 (length s) @ bytes_of_string s
          @ (if length s mod 32 = 0 then [] else replicate (32 - length s mod 32) 0)"
    have ps: "payloadSize (Type p) v = length seg"
      by (simp add: payloadSize_def t v seg_def)
    have bound: "off + length seg
                 + sum_list (map2 (\<lambda>p v. payloadSize (Type p) v) ps vs') < 256 ^ 32"
      using Cons.prems(2) by (simp add: vs ps)
    have "length s \<le> length seg" by (simp add: seg_def)
    with bound have ls: "length s < 256 ^ 32" by simp
    have enc_s: "encodeValue (Type p) v = Inr seg"
      using ls by (simp add: t v encodeValue.simps HasPrefix_def encodeString_VString seg_def)
    have off_ok: "FillBytes 32 (int off) = Inr (be_bytes 32 off)"
      using bound by (intro FillBytes_nat) simp
    from Cons.IH [OF rest_ok bound, of "Suc i" "enc @ be_bytes 32 off" "dyn @ seg"]
    obtain head tail where
      "encodeParametersLoop ps vs' (Suc i) (enc @ be_bytes 32 off) (dyn @ seg)
         (off + length seg) = Inr (head, tail)"
      "length head + length tail
         = length (enc @ be_bytes 32 off) + length (dyn @ seg) + 32 * length ps
           + sum_list (map2 (\<lambda>p v. payloadSize (Type p) v) ps vs')"
      by blast
    then show ?thesis
      using True enc_s off_ok by (simp add: vs ps)
  next
    case False
    from supported_static_encodes [OF sv False] obtain w where
      w: "encodeValue (Type p) v = Inr w" by blast
    have lw: "length w = 32" using w False by (rule encodeValue_static_length)
    have ps: "payloadSize (Type p) v = 0" using False by (simp add: payloadSize_def)
    have bound: "off + sum_list (map2 (\<lambda>p v. payloadSize (Type p) v) ps vs') < 256 ^ 32"
      using Cons.prems(2) by (simp add: vs ps)
    from Cons.IH [OF rest_ok bound, of "Suc i" "enc @ w" dyn]
    obtain head tail where
      "encodeParametersLoop ps vs' (Suc i) (enc @ w) dyn off = Inr (head, tail)"
      "length head + length tail
         = length (enc @ w) + length dyn + 32 * length ps
           + sum_list (map2 (\<lambda>p v. payloadSize (Type p) v) ps vs')"
      by blast
    then show ?thesis
      using False w lw by (simp add: vs ps)
  qed
qed

lemma supported_call_encodes:
  assumes "list_all2 (\<lambda>p v. supportedValue (Type p) v) params values"
    and "callSize params values < 2 ^ 63"
  shows "\<exists>out. EncodeFunctionCall funcName params values = Inr out
           \<and> length out = 4 + callSize params values"
proof -
  have len: "length params = length values"
    using assms(1) by (rule list_all2_lengthD)
  have "(2 :: nat) ^ 63 \<le> 256 ^ 32" by simp
  with assms(2) have
    "length params * 32 + sum_list (map2 (\<lambda>p v. payloadSize (Type p) v) params values)
       < 256 ^ 32"
    by (simp add: callSize_def)
  from supported_loop_encodes [OF assms(1) this, of 0 "[]" "[]"] obtain head tail where
    l: "encodeParametersLoop params values 0 [] [] (length params * 32) = Inr (head, tail)"
    and s: "length head + length tail = callSize params values"
    by (auto simp: callSize_def)
  then have ep: "encodeParameters params values = Inr (head @ tail)"
    using len by (simp add: encodeParameters_def)
  obtain sel where sel: "length sel = 4"
    "EncodeFunctionCall funcName params values =
       bind (wrap FailedToEncodeParameters (encodeParameters params values))
         (\<lambda>encodedParams. Inr (sel @ encodedParams))"
    using EncodeFunctionCall_eq by blast
  then have "EncodeFunctionCall funcName params values = Inr (sel @ head @ tail)"
    using ep by simp
  then show ?thesis using sel(1) s by simp
qed

lemma fromHexChar_A_B [simp]:
  "fromHexChar CHR ''A'' = Some 10" "fromHexChar CHR ''B'' = Some 11"
  by (simp_all add: fromHexChar_def)

lemma address_AB_bytes:
  "DecodeString ''00000000000000000000000000000000000000AB'' = (replicate 19 0 @ [0xAB], True)"
  by (simp add: eval_nat_numeral)

lemma address_AB_valid: "ValidateAddress ''0x00000000000000000000000000000000000000AB''"
  by (simp add: ValidateAddress_def HasPrefix_def address_AB_bytes)

lemma address_AB_word:
  "encodeAddress (VString ''0x00000000000000000000000000000000000000AB'')
   = Inr (replicate 31 0 @ [0xAB])"
  using address_AB_valid
  by (simp add: encodeAddress_def HasPrefix_def TrimPrefix_def eval_nat_numeral)

lemma EncodeToString_append:
  "EncodeToString (xs @ ys) = EncodeToString xs @ EncodeToString ys"
  by (induction xs) simp_all

lemma EncodeToString_zeros: "EncodeToString (replicate k 0) = replicate (2 * k) CHR ''0''"
  by (induction k) (simp_all add: hextable_def)

lemma EncodeToString_AB: "EncodeToString [0xAB] = ''ab''"
  by (simp add: hextable_def)

lemma address_AB_hex:
  "EncodeToString (replicate 19 0 @ [0xAB]) = ''00000000000000000000000000000000000000ab''"
proof -
  have "EncodeToString (replicate 19 0 @ [0xAB]) = replicate 38 CHR ''0'' @ ''ab''"
    by (simp add: EncodeToString_append EncodeToString_zeros hextable_def)
  also have "replicate 38 CHR ''0'' @ ''ab'' = ''00000000000000000000000000000000000000ab''"
    by (simp add: eval_nat_numeral)
  finally show ?thesis .
qed

lemma address_AB_decoded:
  "decodedForm ''address'' (VString ''0x00000000000000000000000000000000000000AB'')
   = VString ''0x00000000000000000000000000000000000000ab''"
  by (simp add: decodedForm_def hextable_def)

text \<open>
  Claim C1 (as stated it fails). For the empty parameter list the encoder returns no
  argument bytes and the decoder rejects empty data; and an address written with
  upper-case hex digits comes back in lower case.
\<close>

theorem round_trip_counterexample:
  "encodeParameters [] [] = Inr []
   \<and> DecodeFunctionResult [] [] = Inl (Error EmptyData)
   \<and> encodeParameters [\<lparr>Name = ''to'', Type = ''address''\<rparr>]
        [VString ''0x00000000000000000000000000000000000000AB''] = Inr (replicate 31 0 @ [0xAB])
   \<and> DecodeFunctionResult [''address''] (replicate 31 0 @ [0xAB])
       = Inr [VString ''0x00000000000000000000000000000000000000ab'']"
proof -
  have "slice (replicate 31 0 @ [0xAB :: byte]) 12 32 = Inr (replicate 19 0 @ [0xAB])"
    by (simp add: slice_def)
  then have "DecodeFunctionResult [''address''] (replicate 31 0 @ [0xAB])
       = Inr [VString ''0x00000000000000000000000000000000000000ab'']"
    by (simp add: DecodeFunctionResult_def decodeValue_def decodeAddress_def address_AB_hex)
  moreover have "encodeParameters [\<lparr>Name = ''to'', Type = ''address''\<rparr>]
        [VString ''0x00000000000000000000000000000000000000AB''] = Inr (replicate 31 0 @ [0xAB])"
    by (simp add: encodeParameters_def encodeValue.simps address_AB_word)
  ultimately show ?thesis
    by (simp add: encodeParameters_def DecodeFunctionResult_def)
qed

lemma round_trip_of_encoded:
  assumes "params \<noteq> []"
    and "list_all2 (\<lambda>p v. supportedValue (Type p) v) params values"
    and "EncodeFunctionCall funcName params values = Inr out"
    and "length out < 2 ^ 63"
  shows "DecodeFunctionResult (map Type params) (drop 4 out)
         = Inr (map2 (\<lambda>p v. decodedForm (Type p) v) params values)"
proof -
  have "encodeParameters params values = Inr (drop 4 out)"
    using assms(3) by (rule EncodeFunctionCall_args)
  moreover have "length (drop 4 out) < 2 ^ 63" using assms(4) by simp
  ultimately show ?thesis
    using assms(1,2) by (intro encodeParameters_roundtrip)
qed

text \<open>
  Claim C1, amended. For every non-empty parameter list made of \<open>address\<close>, static
  \<open>uint\<close> tags, \<open>bool\<close> and \<open>string\<close>, with supported values whose call data has a
  length a Go slice can have, the call encoder succeeds, and decoding the bytes after the
  4-byte selector with the same type list returns the original values, an address in the
  lower-case hex form of its 20 bytes (\<open>decodedForm\<close>; by \<open>decodedForm_address_bytes\<close>
  that form is a valid address of the same bytes).
\<close>

theorem round_trip:
  assumes "params \<noteq> []"
    and "list_all2 (\<lambda>p v. supportedValue (Type p) v) params values"
    and "4 + callSize params values < 2 ^ 63"
  shows "\<exists>out. EncodeFunctionCall funcName params values = Inr out
           \<and> DecodeFunctionResult (map Type params) (drop 4 out)
               = Inr (map2 (\<lambda>p v. decodedForm (Type p) v) params values)"
proof -
  from assms(3) have "callSize params values < 2 ^ 63" by simp
  from supported_call_encodes [OF assms(2) this, of funcName] obtain out where
    out: "EncodeFunctionCall funcName params values = Inr out"
    and len: "length out = 4 + callSize params values"
    by blast
  from len assms(3) have "length out < 2 ^ 63" by simp
  from round_trip_of_encoded [OF assms(1,2) out this] out show ?thesis by blast
qed

lemma rparams_supported: "list_all2 (\<lambda>p v. supportedValue (Type p) v) rparams rvalues"
  by (simp add: rparams_def rvalues_def supportedValue_def address_AB_valid HasPrefix_def
      isDynamicType_def)

lemma rparams_size: "callSize rparams rvalues = 288"
  by (simp add: rparams_def rvalues_def callSize_def payloadSize_def isDynamicType_def)

theorem round_trip_witness:
  "\<exists>out. EncodeFunctionCall ''note''
        [\<lparr>Name = ''memo'', Type = ''string''\<rparr>, \<lparr>Name = ''to'', Type = ''address''\<rparr>,
         \<lparr>Name = ''amount'', Type = ''uint256''\<rparr>, \<lparr>Name = ''ok'', Type = ''bool''\<rparr>,
         \<lparr>Name = ''tag'', Type = ''string''\<rparr>]
        [VString ''hello'', VString ''0x00000000000000000000000000000000000000AB'',
         VBigInt 7, VBool True, VString ''xy''] = Inr out
     \<and> DecodeFunctionResult [''string'', ''address'', ''uint256'', ''bool'', ''string'']
          (drop 4 out)
       = Inr [VString ''hello'', VString ''0x00000000000000000000000000000000000000ab'',
              VBigInt 7, VBool True, VString ''xy'']"
proof -
  have ne: "rparams \<noteq> []" by (simp add: rparams_def)
  have size: "4 + callSize rparams rvalues < 2 ^ 63" by (simp add: rparams_size)
  have d: "map2 (\<lambda>p v. decodedForm (Type p) v) rparams rvalues
           = [VString ''hello'', VString ''0x00000000000000000000000000000000000000ab'',
              VBigInt 7, VBool True, VString ''xy'']"
    by (simp add: rparams_def rvalues_def address_AB_decoded) (simp add: decodedForm_def)
  from round_trip [OF ne rparams_supported size, of "''note''"] obtain out where
    "EncodeFunctionCall ''note'' rparams rvalues = Inr out"
    "DecodeFunctionResult (map Type rparams) (drop 4 out)
       = Inr (map2 (\<lambda>p v. decodedForm (Type p) v) rparams rvalues)"
    by blast
  then show ?thesis
    unfolding d by (auto simp: rparams_def rvalues_def)
qed

end
